theory Spec2Isabelle
  imports Main
begin

section \<open>Data model of cmd/search/http.go\<close>

text \<open>
  One call of the callback that \<^verbatim>\<open>executeGrep\<close> is handed (lines 291 and 355):
  \<^verbatim>\<open>func(name string, search string, matches []bytes.Buffer, moreLines int)\<close>.
  Byte buffers are strings (lists of bytes).
\<close>

record MatchEvent =
  name :: string
  search :: string
  matches :: "string list"
  moreLines :: int

text \<open>
  The value \<^verbatim>\<open>resultMeta.MetadataFor(name)\<close> returns. Its declaration is not
  in http.go; the fields are the ones the renderers read. \<^verbatim>\<open>JobURI\<close> is compared
  with \<^verbatim>\<open>nil\<close> at line 371, so it is a reference that may be nil: \<open>None\<close> is nil,
  \<open>Some u\<close> a URL whose \<^verbatim>\<open>String()\<close> is \<open>u\<close>. \<^verbatim>\<open>FailedAt\<close> is a
  \<^verbatim>\<open>time.Time\<close>, here the nanoseconds since Go's zero instant, so that
  \<^verbatim>\<open>IsZero()\<close> is \<open>FailedAt r = 0\<close>.
\<close>

record Result =
  FileType :: string
  Trigger :: string
  JobURI :: "string option"
  Name :: string
  Number :: int
  FailedAt :: int

text \<open>The zero value of \<^verbatim>\<open>Result\<close>, which a resolver returns on a miss.\<close>

definition zero_Result :: Result where
  "zero_Result = \<lparr>FileType = [], Trigger = [], JobURI = None, Name = [], Number = 0, FailedAt = 0\<rparr>"

text \<open>A Go run-time panic ends the call without a result.\<close>

datatype panic = NilPointerDereference

text \<open>
  \<^verbatim>\<open>result.JobURI.String()\<close>: a method call through a reference. Through nil it
  panics with a nil pointer dereference, as Go's \<^verbatim>\<open>(*url.URL).String\<close> does.
\<close>

definition JobURI_String :: "string option \<Rightarrow> panic + string" where
  "JobURI_String u = (case u of None \<Rightarrow> Inl NilPointerDereference | Some s \<Rightarrow> Inr s)"

text \<open>
  What reaches the buffered writer \<^verbatim>\<open>bw\<close>, one constructor for each write
  statement of the two renderers, in the order of the calls. The arguments are the
  values handed to the format string (before HTML escaping).
  \<^item> \<open>Flush\<close>: \<^verbatim>\<open>bw.Flush()\<close>, lines 293, 343, 357, 394
  \<^item> \<open>Separator\<close>: line 296, the dash between two hits
  \<^item> \<open>BlockClose\<close>: lines 300 and 341, \<^verbatim>\<open></pre></div>\<close>
  \<^item> \<open>BlockOpen\<close>: line 311, the opening div
  \<^item> \<open>Header\<close>: line 312, the heading and the opening pre; file type, trigger,
    job URL, name, number, age
  \<^item> \<open>Line\<close>: lines 333 and 334, one escaped line and a newline
  \<^item> \<open>NotShown\<close>: line 337, "... n lines not shown"
  \<^item> \<open>TableOpen\<close>: line 354, the table and its heading row
  \<^item> \<open>HitCount\<close>: lines 377 and 391, the cell with the number of hits
  \<^item> \<open>RowClose\<close>: lines 378 and 392
  \<^item> \<open>RowOpen\<close>: line 383
  \<^item> \<open>RowCells\<close>: line 384; file type, job URL, name, number, age
\<close>

datatype out =
    Flush
  | Separator
  | BlockClose
  | BlockOpen
  | Header string string string string int string
  | Line string
  | NotShown int
  | TableOpen
  | HitCount nat
  | RowClose
  | RowOpen
  | RowCells string string string int string

text \<open>
  The variables the two callbacks close over: \<^verbatim>\<open>count\<close>,
  \<^verbatim>\<open>lineCount\<close> (context renderer), \<^verbatim>\<open>currentLines\<close> (summary renderer),
  \<^verbatim>\<open>lastName\<close> and the writer \<^verbatim>\<open>bw\<close>, as the log of what was written to it.
  The counters only grow by one per event, so they are natural numbers.
\<close>

record locals =
  count :: nat
  lineCount :: nat
  currentLines :: nat
  lastName :: string
  bw :: "out list"

definition init :: "out list \<Rightarrow> locals" where
  "init w = \<lparr>count = 0, lineCount = 0, currentLines = 0, lastName = [], bw = w\<rparr>"

definition emit :: "out list \<Rightarrow> locals \<Rightarrow> locals" where
  "emit ts s = s\<lparr>bw := bw s @ ts\<rparr>"

section \<open>Library functions the renderers call\<close>

text \<open>\<^verbatim>\<open>bytes.TrimRight(b, cutset)\<close>: \<open>b\<close> without its trailing bytes from \<open>cutset\<close>.\<close>

definition TrimRight :: "string \<Rightarrow> string \<Rightarrow> string" where
  "TrimRight b cutset = rev (dropWhile (\<lambda>c. c \<in> set cutset) (rev b))"

text \<open>
  \<^verbatim>\<open>start.Sub(result.FailedAt)\<close>: the difference as a \<^verbatim>\<open>time.Duration\<close>, a
  64-bit count of nanoseconds; Go saturates at the largest and smallest duration.
\<close>

definition Sub :: "int \<Rightarrow> int \<Rightarrow> int" where
  "Sub t u = max (- (2 ^ 63)) (min (2 ^ 63 - 1) (t - u))"

text \<open>
  Modelled from the spec: \<^verbatim>\<open>executeGrep\<close> is not in http.go. The spec's contract
  of the MatchEvent source is that it calls the callback synchronously and in order,
  once for each event, and then returns nil or an error. The events it delivers are
  the list \<open>events\<close>; the error it returns is given to the renderer separately. A
  panic in the callback unwinds through it.
\<close>

fun executeGrep :: "(MatchEvent \<Rightarrow> locals \<Rightarrow> panic + locals) \<Rightarrow> MatchEvent list \<Rightarrow> locals \<Rightarrow> panic + locals" where
  "executeGrep f [] s = Inr s"
| "executeGrep f (e # events) s =
     (case f e s of Inl p \<Rightarrow> Inl p | Inr s' \<Rightarrow> executeGrep f events s')"

section \<open>renderWithContext (lines 285 to 347)\<close>

text \<open>Lines 292 to 294 and 356 to 358, the same in both callbacks.\<close>

definition flush_due :: "locals \<Rightarrow> locals" where
  "flush_due s = (if count s = 5 \<or> count s mod 50 = 0 then emit [Flush] s else s)"

text \<open>
  Lines 316 to 323: the first loop over \<^verbatim>\<open>matches\<close>, with \<^verbatim>\<open>lines\<close> as the
  accumulator; \<^verbatim>\<open>continue\<close> goes on with the next match and appends nothing.
\<close>

fun collect_lines :: "string list \<Rightarrow> string list \<Rightarrow> string list" where
  "collect_lines lines [] = lines"
| "collect_lines lines (m # ms) =
     (let line = TrimRight m '' ''
      in if length line = 0 then collect_lines lines ms
         else collect_lines (lines @ [line]) ms)"

text \<open>
  Lines 324 to 329: the second loop, from the last index down. \<open>strip_tail n lines\<close>
  is the loop at \<^verbatim>\<open>i = n - 1\<close>; it is entered with \<open>n = length lines\<close> and every
  iteration that goes on cuts \<open>lines\<close> to length \<open>i\<close>, so \<open>lines ! i\<close> is in range.
\<close>

primrec strip_tail :: "nat \<Rightarrow> string list \<Rightarrow> string list" where
  "strip_tail 0 lines = lines"
| "strip_tail (Suc i) lines =
     (if length (lines ! i) \<noteq> 0 then lines else strip_tail i (take i lines))"

definition hit_lines :: "string list \<Rightarrow> string list" where
  "hit_lines ms = (let lines = collect_lines [] ms in strip_tail (length lines) lines)"

text \<open>Lines 304 to 309: the age shown in the heading of a block.\<close>

definition context_age :: "(int \<Rightarrow> string) \<Rightarrow> int \<Rightarrow> Result \<Rightarrow> string" where
  "context_age HumanDuration start result =
     (if FailedAt result \<noteq> 0 then '' '' @ HumanDuration (Sub start (FailedAt result)) else [])"

text \<open>
  Lines 295 to 313. \<open>MetadataFor\<close> is the resolver \<^verbatim>\<open>resultMeta.MetadataFor\<close>,
  \<open>HumanDuration\<close> is \<^verbatim>\<open>units.HumanDuration\<close>; both are outside http.go and are
  parameters. The found flag of the resolver is dropped (line 305). The arguments of
  line 312 are evaluated before anything of that line is written.
\<close>

definition context_block :: "(string \<Rightarrow> Result \<times> bool) \<Rightarrow> (int \<Rightarrow> string) \<Rightarrow> int \<Rightarrow> MatchEvent \<Rightarrow> locals \<Rightarrow> panic + locals" where
  "context_block MetadataFor HumanDuration start e s =
     (if lastName s = name e then Inr (emit [Separator] s)
      else
        let s1 = s\<lparr>lastName := name e\<rparr>;
            s2 = (if count s1 > 0 then emit [BlockClose] s1 else s1);
            s3 = s2\<lparr>count := count s2 + 1\<rparr>;
            result = fst (MetadataFor (name e));
            age = context_age HumanDuration start result;
            s4 = emit [BlockOpen] s3
        in case JobURI_String (JobURI result) of
             Inl p \<Rightarrow> Inl p
           | Inr uri \<Rightarrow> Inr (emit [Header (FileType result) (Trigger result) uri (Name result) (Number result) age] s4))"

text \<open>Lines 315 to 338: the lines of the hit and the notice of elided lines.\<close>

definition context_hit :: "MatchEvent \<Rightarrow> locals \<Rightarrow> locals" where
  "context_hit e s =
     (let lines = hit_lines (matches e);
          s1 = s\<lparr>lineCount := lineCount s + length lines\<rparr>;
          s2 = emit (map Line lines) s1
      in if moreLines e > 0 then emit [NotShown (moreLines e)] s2 else s2)"

text \<open>The callback of lines 291 to 339.\<close>

definition context_callback :: "(string \<Rightarrow> Result \<times> bool) \<Rightarrow> (int \<Rightarrow> string) \<Rightarrow> int \<Rightarrow> MatchEvent \<Rightarrow> locals \<Rightarrow> panic + locals" where
  "context_callback MetadataFor HumanDuration start e s =
     (case context_block MetadataFor HumanDuration start e (flush_due s) of
        Inl p \<Rightarrow> Inl p
      | Inr s' \<Rightarrow> Inr (context_hit e s'))"

text \<open>
  The whole function. It returns what was written to \<^verbatim>\<open>bw\<close>, \<^verbatim>\<open>count\<close> and
  the error of \<^verbatim>\<open>executeGrep\<close>, here \<open>err\<close>; a panic returns nothing.
\<close>

definition renderWithContext :: "(string \<Rightarrow> Result \<times> bool) \<Rightarrow> (int \<Rightarrow> string) \<Rightarrow> int \<Rightarrow> MatchEvent list \<Rightarrow> 'e option \<Rightarrow> panic + (out list \<times> nat \<times> 'e option)" where
  "renderWithContext MetadataFor HumanDuration start events err =
     (case executeGrep (context_callback MetadataFor HumanDuration start) events (init []) of
        Inl p \<Rightarrow> Inl p
      | Inr s \<Rightarrow>
          let s1 = (if count s > 0 then emit [BlockClose] s else s);
              s2 = emit [Flush] s1
          in Inr (bw s2, count s2, err))"

section \<open>renderSummary (lines 349 to 398)\<close>

text \<open>Lines 364 to 369: the age shown in a row.\<close>

definition summary_age :: "(int \<Rightarrow> string) \<Rightarrow> int \<Rightarrow> Result \<Rightarrow> string" where
  "summary_age HumanDuration start result =
     (if FailedAt result \<noteq> 0 then HumanDuration (Sub start (FailedAt result)) @ '' ago'' else [])"

text \<open>
  The callback of lines 355 to 388. With no job URI it returns at line 373, before
  the counter of line 387 is reached.
\<close>

definition summary_callback :: "(string \<Rightarrow> Result \<times> bool) \<Rightarrow> (int \<Rightarrow> string) \<Rightarrow> int \<Rightarrow> MatchEvent \<Rightarrow> locals \<Rightarrow> panic + locals" where
  "summary_callback MetadataFor HumanDuration start e s0 =
     (let s = flush_due s0
      in if lastName s = name e then Inr (s\<lparr>currentLines := currentLines s + 1\<rparr>)
         else
           let s1 = s\<lparr>lastName := name e\<rparr>;
               result = fst (MetadataFor (name e));
               age = summary_age HumanDuration start result
           in if JobURI result = None then Inr s1
              else
                let s2 = (if count s1 > 0
                          then (emit [HitCount (currentLines s1), RowClose] s1)\<lparr>currentLines := 0\<rparr>
                          else s1);
                    s3 = s2\<lparr>count := count s2 + 1\<rparr>;
                    s4 = emit [RowOpen] s3
                in case JobURI_String (JobURI result) of
                     Inl p \<Rightarrow> Inl p
                   | Inr uri \<Rightarrow>
                       let s5 = emit [RowCells (FileType result) uri (Name result) (Number result) age] s4
                       in Inr (s5\<lparr>currentLines := currentLines s5 + 1\<rparr>))"

definition renderSummary :: "(string \<Rightarrow> Result \<times> bool) \<Rightarrow> (int \<Rightarrow> string) \<Rightarrow> int \<Rightarrow> MatchEvent list \<Rightarrow> 'e option \<Rightarrow> panic + (out list \<times> nat \<times> 'e option)" where
  "renderSummary MetadataFor HumanDuration start events err =
     (case executeGrep (summary_callback MetadataFor HumanDuration start) events (init [TableOpen]) of
        Inl p \<Rightarrow> Inl p
      | Inr s \<Rightarrow>
          let s1 = (if count s > 0 then emit [HitCount (currentLines s), RowClose] s else s);
              s2 = emit [Flush] s1
          in Inr (bw s2, count s2, err))"

section \<open>parseRequest (lines 155 to 269)\<close>

text \<open>
  The request after \<^verbatim>\<open>req.ParseForm()\<close>: the error of parsing, if any, and the
  form values, a list of values for each key (none for a key that is absent).
\<close>

record Request =
  ParseForm :: "string option"
  Form :: "string \<Rightarrow> string list"

text \<open>\<^verbatim>\<open>req.FormValue(key)\<close>: the first value of the key, the empty string without one.\<close>

definition FormValue :: "Request \<Rightarrow> string \<Rightarrow> string" where
  "FormValue req key = (case Form req key of [] \<Rightarrow> [] | v # _ \<Rightarrow> v)"

text \<open>
  The query descriptor \<^verbatim>\<open>Index\<close>; \<^verbatim>\<open>Job\<close> is the compiled job filter, kept as
  the expression it was compiled from, and \<^verbatim>\<open>MaxAge\<close> a duration in nanoseconds.
\<close>

record Index =
  Search :: "string list"
  SearchType :: string
  Job :: "string option"
  MaxAge :: int
  Context :: int

definition zero_Index :: Index where
  "zero_Index = \<lparr>Search = [], SearchType = [], Job = None, MaxAge = 0, Context = 0\<rparr>"

text \<open>The errors \<^verbatim>\<open>parseRequest\<close> returns, in the order of the source.\<close>

datatype error =
    FormError string
  | SearchTypeError
  | NameError
  | MaxAgeInvalid
  | MaxAgeNegative
  | ContextError

text \<open>
  The library functions \<^verbatim>\<open>parseRequest\<close> calls: \<^verbatim>\<open>regexp.Compile\<close> (whether
  the expression compiles), \<^verbatim>\<open>time.ParseDuration\<close> and \<^verbatim>\<open>strconv.Atoi\<close>
  (\<open>None\<close> for an error). They are parameters of the model.
\<close>

record lib =
  Compile :: "string \<Rightarrow> bool"
  ParseDuration :: "string \<Rightarrow> int option"
  Atoi :: "string \<Rightarrow> int option"

definition Hour :: int where
  "Hour = 3600 * 1000000000"

text \<open>Lines 168 to 213, the searches of the chart mode that are not commented out.\<close>

definition chart_searches :: "string list" where
  "chart_searches =
     [''could not create or restart template instance.*'',
      ''could not (wait for|get) build.*'',
      ''level=error.*timeout while waiting for state.*'',
      ''Container setup exited with code ., reason Error'',
      ''no providers available to validate pod'',
      ''Error deleting EBS volume .* since volume is currently attached'',
      ''clusteroperator/.* changed Degraded to True: .*'',
      ''Cluster operator .* is still updating.*'',
      ''Pod .* is not healthy'',
      ''failed: '' @ [CHR 0x5C] @ ''(.*'']"

text \<open>Lines 216 to 225.\<close>

definition parse_type :: "Request \<Rightarrow> Index \<Rightarrow> error + Index" where
  "parse_type req index =
     (let t = FormValue req ''type''
      in if t = ''junit'' then Inr (index\<lparr>SearchType := ''junit''\<rparr>)
         else if t = ''build-log'' then Inr (index\<lparr>SearchType := ''build-log''\<rparr>)
         else if t = ''all'' \<or> t = [] then Inr (index\<lparr>SearchType := ''all''\<rparr>)
         else Inl SearchTypeError)"

text \<open>Lines 227 to 236.\<close>

definition parse_name :: "lib \<Rightarrow> Request \<Rightarrow> string \<Rightarrow> Index \<Rightarrow> error + Index" where
  "parse_name l req mode index =
     (let v = FormValue req ''name''
      in if length v > 0 \<or> mode = ''chart''
         then (let v' = (if length v = 0 then ''-e2e-'' else v)
               in if Compile l v' then Inr (index\<lparr>Job := Some v'\<rparr>) else Inl NameError)
         else Inr index)"

text \<open>Lines 238 to 256; \<open>oMaxAge\<close> is \<^verbatim>\<open>o.MaxAge\<close>, the only field of the options read.\<close>

definition parse_maxAge :: "int \<Rightarrow> lib \<Rightarrow> Request \<Rightarrow> string \<Rightarrow> Index \<Rightarrow> error + Index" where
  "parse_maxAge oMaxAge l req mode index =
     (let v = FormValue req ''maxAge'';
          parsed =
            (if length v > 0
             then (case ParseDuration l v of
                     None \<Rightarrow> Inl MaxAgeInvalid
                   | Some maxAge \<Rightarrow>
                       if maxAge < 0 then Inl MaxAgeNegative else Inr (index\<lparr>MaxAge := maxAge\<rparr>))
             else Inr index)
      in case parsed of
           Inl e \<Rightarrow> Inl e
         | Inr index1 \<Rightarrow>
             let maxAge = oMaxAge;
                 maxAge = (if maxAge = 0 then 7 * 24 * Hour else maxAge);
                 maxAge = (if mode = ''chart'' \<and> maxAge > 24 * Hour then 24 * Hour else maxAge)
             in if MaxAge index1 = 0 \<or> MaxAge index1 > maxAge
                then Inr (index1\<lparr>MaxAge := maxAge\<rparr>) else Inr index1)"

text \<open>Lines 258 to 266.\<close>

definition parse_context :: "lib \<Rightarrow> Request \<Rightarrow> string \<Rightarrow> Index \<Rightarrow> error + Index" where
  "parse_context l req mode index =
     (let c = FormValue req ''context''
      in if length c > 0
         then (case Atoi l c of
                 None \<Rightarrow> Inl ContextError
               | Some num \<Rightarrow>
                   if num < - 1 \<or> num > 15 then Inl ContextError
                   else Inr (index\<lparr>Context := num\<rparr>))
         else if mode = ''text'' then Inr (index\<lparr>Context := 2\<rparr>)
         else Inr index)"

definition parseRequest :: "int \<Rightarrow> lib \<Rightarrow> Request \<Rightarrow> string \<Rightarrow> error + Index" where
  "parseRequest oMaxAge l req mode =
     (case ParseForm req of
        Some e \<Rightarrow> Inl (FormError e)
      | None \<Rightarrow>
          let index = zero_Index\<lparr>Search := Form req ''search''\<rparr>;
              index = (if length (Search index) = 0 \<and> mode = ''chart''
                       then index\<lparr>Search := Search index @ chart_searches\<rparr> else index)
          in (case parse_type req index of
                Inl e \<Rightarrow> Inl e
              | Inr index1 \<Rightarrow>
                  (case parse_name l req mode index1 of
                     Inl e \<Rightarrow> Inl e
                   | Inr index2 \<Rightarrow>
                       (case parse_maxAge oMaxAge l req mode index2 of
                          Inl e \<Rightarrow> Inl e
                        | Inr index3 \<Rightarrow> parse_context l req mode index3))))"

section \<open>handleIndex (lines 51 to 153): the choice of the renderer\<close>

datatype renderer = WithContext | Summary

text \<open>
  What \<^verbatim>\<open>handleIndex\<close> answers: the 400 of line 59, the empty results page of
  lines 119 to 124, or the results of the one renderer chosen at lines 133 to 137.
\<close>

datatype 'e response =
    BadInput error
  | EmptyPage
  | Results renderer "panic + (out list \<times> nat \<times> 'e option)"

text \<open>
  \<open>generator\<close> stands for \<^verbatim>\<open>o.generator\<close> run by \<^verbatim>\<open>executeGrep\<close> on the index:
  the events it delivers and the error it ends with.
\<close>

definition handleIndex :: "int \<Rightarrow> lib \<Rightarrow> (Index \<Rightarrow> MatchEvent list \<times> 'e option) \<Rightarrow> (string \<Rightarrow> Result \<times> bool) \<Rightarrow> (int \<Rightarrow> string) \<Rightarrow> int \<Rightarrow> Request \<Rightarrow> 'e response" where
  "handleIndex oMaxAge l generator MetadataFor HumanDuration start req =
     (case parseRequest oMaxAge l req ''text'' of
        Inl e \<Rightarrow> BadInput e
      | Inr index0 \<Rightarrow>
          let index = (if length (Search index0) = 0 then index0\<lparr>Search := [[]]\<rparr> else index0)
          in if length (hd (Search index)) = 0 then EmptyPage
             else if Context index \<ge> 0
             then Results WithContext
                    (renderWithContext MetadataFor HumanDuration start (fst (generator index)) (snd (generator index)))
             else Results Summary
                    (renderSummary MetadataFor HumanDuration start (fst (generator index)) (snd (generator index))))"

section \<open>Reading the output\<close>

text \<open>What was written, without the flushes.\<close>

definition written :: "out list \<Rightarrow> out list" where
  "written ts = filter (\<lambda>t. t \<noteq> Flush) ts"

text \<open>How often the sink was flushed.\<close>

definition flushes :: "out list \<Rightarrow> nat" where
  "flushes ts = length (filter (\<lambda>t. t = Flush) ts)"

text \<open>How many blocks were opened (line 311) and how many headings written (line 312).\<close>

definition blocks_opened :: "out list \<Rightarrow> nat" where
  "blocks_opened ts = length (filter (\<lambda>t. t = BlockOpen) ts)"

fun is_Header :: "out \<Rightarrow> bool" where
  "is_Header (Header f t u n k a) = True"
| "is_Header _ = False"

definition headers :: "out list \<Rightarrow> nat" where
  "headers ts = length (filter is_Header ts)"


text \<open>What lines 332 to 338 write for one event.\<close>

definition hit :: "MatchEvent \<Rightarrow> out list" where
  "hit e = map Line (hit_lines (matches e)) @ (if moreLines e > 0 then [NotShown (moreLines e)] else [])"

text \<open>What lines 311 and 312 write for a source with the job URL \<open>u\<close>.\<close>

definition heading :: "(string \<Rightarrow> Result \<times> bool) \<Rightarrow> (int \<Rightarrow> string) \<Rightarrow> int \<Rightarrow> string \<Rightarrow> string \<Rightarrow> out list" where
  "heading MetadataFor HumanDuration start a u =
     (let result = fst (MetadataFor a)
      in [BlockOpen, Header (FileType result) (Trigger result) u (Name result) (Number result)
                       (context_age HumanDuration start result)])"

section \<open>The words of the specification\<close>

text \<open>
  A block, in the glossary of the specification, is a maximal run of consecutive
  events with the same source identifier. \<open>run_lengths\<close> gives the sizes of the
  blocks of a list of identifiers, in order.
\<close>

fun run_lengths :: "string list \<Rightarrow> nat list" where
  "run_lengths [] = []"
| "run_lengths [x] = [1]"
| "run_lengths (x # y # ys) =
     (if x = y
      then (case run_lengths (y # ys) of [] \<Rightarrow> [] | n # ns \<Rightarrow> Suc n # ns)
      else 1 # run_lengths (y # ys))"

text \<open>The first event of the stream, if there is one, names its source.\<close>

definition starts_named :: "MatchEvent list \<Rightarrow> bool" where
  "starts_named events = (case events of [] \<Rightarrow> True | e # _ \<Rightarrow> name e \<noteq> [])"

text \<open>Every source of the stream resolves to metadata with a job URL.\<close>

definition all_linked :: "(string \<Rightarrow> Result \<times> bool) \<Rightarrow> MatchEvent list \<Rightarrow> bool" where
  "all_linked MetadataFor events = list_all (\<lambda>e. JobURI (fst (MetadataFor (name e))) \<noteq> None) events"

text \<open>
  The counts at which a callback flushes before anything else (lines 292 and 356),
  and how many of the counts from \<open>a\<close> up to \<open>b\<close>, \<open>b\<close> excluded, do.
\<close>

definition due :: "nat \<Rightarrow> bool" where
  "due c = (c = 5 \<or> c mod 50 = 0)"

definition cadence :: "nat \<Rightarrow> nat \<Rightarrow> nat" where
  "cadence a b = length (filter due [a..<b])"

text \<open>The requests that the specification rejects.\<close>

definition bad_type :: "Request \<Rightarrow> bool" where
  "bad_type req = (FormValue req ''type'' \<notin> {''junit'', ''build-log'', ''all'', []})"

definition bad_maxAge :: "lib \<Rightarrow> Request \<Rightarrow> bool" where
  "bad_maxAge l req =
     (FormValue req ''maxAge'' \<noteq> [] \<and>
      (case ParseDuration l (FormValue req ''maxAge'') of None \<Rightarrow> True | Some d \<Rightarrow> d < 0))"

definition bad_context :: "lib \<Rightarrow> Request \<Rightarrow> bool" where
  "bad_context l req =
     (FormValue req ''context'' \<noteq> [] \<and>
      (case Atoi l (FormValue req ''context'') of None \<Rightarrow> True | Some n \<Rightarrow> n < - 1 \<or> 15 < n))"

definition bad_name :: "lib \<Rightarrow> Request \<Rightarrow> string \<Rightarrow> bool" where
  "bad_name l req mode =
     (if FormValue req ''name'' \<noteq> [] then \<not> Compile l (FormValue req ''name'')
      else mode = ''chart'' \<and> \<not> Compile l ''-e2e-'')"

section \<open>Sample inputs\<close>

text \<open>An event with one line, a resolver that knows every source but \<open>X\<close>, and a resolver that knows none.\<close>

definition ev :: "string \<Rightarrow> string list \<Rightarrow> MatchEvent" where
  "ev a ms = \<lparr>name = a, search = ''timeout'', matches = ms, moreLines = 0\<rparr>"

definition known :: "string \<Rightarrow> Result \<times> bool" where
  "known a =
     (if a = ''X'' then (zero_Result, False)
      else (\<lparr>FileType = ''junit'', Trigger = ''build'', JobURI = Some (''https://ci/'' @ a),
             Name = a, Number = 7, FailedAt = 0\<rparr>, True))"

definition unknown :: "string \<Rightarrow> Result \<times> bool" where
  "unknown a = (zero_Result, False)"

definition human :: "int \<Rightarrow> string" where
  "human d = ''1 hour''"

text \<open>The sources \<open>a\<close>, \<open>aa\<close>, \<open>aaa\<close> and so on, one hit each.\<close>

definition sources :: "nat \<Rightarrow> MatchEvent list" where
  "sources n = map (\<lambda>i. ev (replicate (Suc i) (CHR ''a'')) [''timeout'']) [0..<n]"

text \<open>Stand-ins for the library, enough for the requests below.\<close>

definition sample_lib :: lib where
  "sample_lib =
     \<lparr>Compile = (\<lambda>v. True),
      ParseDuration = (\<lambda>v. if v = ''6h'' then Some (6 * Hour) else None),
      Atoi = (\<lambda>c. if c = ''7'' then Some 7 else if c = ''-1'' then Some (- 1)
                   else if c = ''16'' then Some 16 else None)\<rparr>"

definition request :: "(string \<times> string) list \<Rightarrow> Request" where
  "request kvs = \<lparr>ParseForm = None, Form = (\<lambda>k. map snd (filter (\<lambda>kv. fst kv = k) kvs))\<rparr>"

section \<open>Blocks, rows and flush points\<close>

text \<open>
  The blocks of a list of identifiers in the sense of the glossary, each with its
  identifier and its size, in order; \<open>run_lengths\<close> gives the sizes alone.
\<close>

fun runs :: "string list \<Rightarrow> (string \<times> nat) list" where
  "runs [] = []"
| "runs [x] = [(x, 1)]"
| "runs (x # y # ys) =
     (if x = y
      then (case runs (y # ys) of [] \<Rightarrow> [] | (a, n) # rs \<Rightarrow> (a, Suc n) # rs)
      else (x, 1) # runs (y # ys))"


text \<open>
  The value of \<^verbatim>\<open>count\<close> on entry to the callback for each event of a stream, in
  order: the number of blocks opened before the event is handled.
\<close>

fun entry_counts :: "(MatchEvent \<Rightarrow> locals \<Rightarrow> panic + locals) \<Rightarrow> MatchEvent list \<Rightarrow> locals \<Rightarrow> nat list" where
  "entry_counts f [] s = []"
| "entry_counts f (e # events) s =
     count s # (case f e s of Inl p \<Rightarrow> [] | Inr s' \<Rightarrow> entry_counts f events s')"

text \<open>
  A state of the callback loop with \<open>c\<close> blocks opened, the last of them for the
  source \<open>a\<close>, seen from an empty buffer; and a stream of five sources whose
  fifth has three hits.
\<close>

definition at_count :: "nat \<Rightarrow> string \<Rightarrow> locals" where
  "at_count c a = \<lparr>count = c, lineCount = 0, currentLines = 1, lastName = a, bw = []\<rparr>"

definition five_sources :: "MatchEvent list" where
  "five_sources =
     [ev ''A'' [''l''], ev ''B'' [''l''], ev ''C'' [''l''], ev ''D'' [''l''],
      ev ''E'' [''l''], ev ''E'' [''m''], ev ''E'' [''n'']]"

section \<open>Auxiliary facts\<close>

lemma executeGrep_append:
  "executeGrep f (xs @ ys) s = (case executeGrep f xs s of Inl p \<Rightarrow> Inl p | Inr s' \<Rightarrow> executeGrep f ys s')"
  by (induction xs arbitrary: s) (auto split: sum.splits)

lemma collect_lines_filter:
  "collect_lines acc ms = acc @ filter (\<lambda>line. line \<noteq> []) (map (\<lambda>m. TrimRight m '' '') ms)"
  by (induction ms arbitrary: acc) (auto simp: Let_def)

lemma strip_tail_nonblank:
  assumes "\<forall>line \<in> set lines. line \<noteq> []"
  shows "strip_tail (length lines) lines = lines"
proof (cases "length lines")
  case 0
  then show ?thesis by simp
next
  case (Suc i)
  then have "lines ! i \<in> set lines" by simp
  with assms have "lines ! i \<noteq> []" by blast
  with Suc show ?thesis by simp
qed

lemma hit_lines_filter:
  "hit_lines ms = filter (\<lambda>line. line \<noteq> []) (map (\<lambda>m. TrimRight m '' '') ms)"
proof -
  let ?ls = "filter (\<lambda>line. line \<noteq> []) (map (\<lambda>m. TrimRight m '' '') ms)"
  have "collect_lines [] ms = ?ls" by (simp only: collect_lines_filter append_Nil)
  moreover have "strip_tail (length ?ls) ?ls = ?ls" by (rule strip_tail_nonblank) simp
  ultimately show ?thesis by (simp only: hit_lines_def Let_def)
qed

lemma context_hit_bw: "bw (context_hit e s) = bw s @ hit e"
  by (simp add: context_hit_def hit_def emit_def Let_def)

lemma context_hit_fields:
  "count (context_hit e s) = count s" "lastName (context_hit e s) = lastName s"
  "currentLines (context_hit e s) = currentLines s"
  "lineCount (context_hit e s) = lineCount s + length (hit_lines (matches e))"
  by (simp_all add: context_hit_def emit_def Let_def)

lemma flush_due_fields:
  "count (flush_due s) = count s" "lastName (flush_due s) = lastName s"
  "currentLines (flush_due s) = currentLines s" "lineCount (flush_due s) = lineCount s"
  "bw (flush_due s) = bw s @ (if due (count s) then [Flush] else [])"
  by (simp_all add: flush_due_def emit_def due_def)


lemma written_hit: "written (hit e) = hit e"
  by (auto simp: written_def hit_def filter_id_conv)

lemma written_heading: "written (heading M H st a u) = heading M H st a u"
  by (simp add: written_def heading_def Let_def)

lemma flushes_simps:
  "flushes [] = 0" "flushes (xs @ ys) = flushes xs + flushes ys"
  "flushes (Flush # xs) = Suc (flushes xs)" "t \<noteq> Flush \<Longrightarrow> flushes (t # xs) = flushes xs"
  by (simp_all add: flushes_def)

lemma flushes_hit: "flushes (hit e) = 0"
  by (auto simp: flushes_def hit_def)

lemma flushes_heading: "flushes (heading M H st a u) = 0"
  by (simp add: flushes_def heading_def Let_def)

lemma blocks_opened_simps:
  "blocks_opened [] = 0" "blocks_opened (xs @ ys) = blocks_opened xs + blocks_opened ys"
  "blocks_opened (BlockOpen # xs) = Suc (blocks_opened xs)"
  "t \<noteq> BlockOpen \<Longrightarrow> blocks_opened (t # xs) = blocks_opened xs"
  by (simp_all add: blocks_opened_def)

lemma blocks_opened_hit: "blocks_opened (hit e) = 0"
  by (auto simp: blocks_opened_def hit_def)

lemma blocks_opened_heading: "blocks_opened (heading M H st a u) = 1"
  by (simp add: blocks_opened_def heading_def Let_def)

lemma headers_simps:
  "headers [] = 0" "headers (xs @ ys) = headers xs + headers ys"
  "headers (t # xs) = (if is_Header t then 1 else 0) + headers xs"
  by (simp_all add: headers_def)

lemma headers_hit: "headers (hit e) = 0"
  by (auto simp: headers_def hit_def)

lemma headers_heading: "headers (heading M H st a u) = 1"
  by (simp add: headers_def heading_def Let_def)

lemma Separator_hit: "Separator \<notin> set (hit e)"
  by (auto simp: hit_def)

lemma Separator_heading: "Separator \<notin> set (heading M H st a u)"
  by (simp add: heading_def Let_def)

lemma context_callback_same:
  assumes "lastName s = name e"
  shows "context_callback M H st e s = Inr (context_hit e (emit [Separator] (flush_due s)))"
  using assms by (simp add: context_callback_def context_block_def flush_due_fields)

lemma context_callback_nil:
  assumes "lastName s \<noteq> name e" and "JobURI (fst (M (name e))) = None"
  shows "context_callback M H st e s = Inl NilPointerDereference"
  using assms
  by (simp add: context_callback_def context_block_def flush_due_fields JobURI_String_def Let_def)

lemma context_callback_new:
  assumes "lastName s \<noteq> name e" and "JobURI (fst (M (name e))) = Some u"
  shows "\<exists>s'. context_callback M H st e s = Inr s' \<and> count s' = Suc (count s) \<and>
           lastName s' = name e \<and> currentLines s' = currentLines s \<and>
           lineCount s' = lineCount s + length (hit_lines (matches e)) \<and>
           bw s' = bw s @ (if due (count s) then [Flush] else []) @
                   (if count s > 0 then [BlockClose] else []) @ heading M H st (name e) u @ hit e"
  using assms
  by (simp add: context_callback_def context_block_def flush_due_fields JobURI_String_def Let_def
      context_hit_bw context_hit_fields emit_def heading_def)

lemma cadence_step: "a < b \<Longrightarrow> cadence a b = (if due a then 1 else 0) + cadence (Suc a) b"
  by (simp add: cadence_def upt_conv_Cons)

lemma cadence_empty: "cadence a a = 0"
  by (simp add: cadence_def)

lemma context_fresh_run:
  assumes "distinct (map name es)" and "lastName s \<notin> set (map name es)" and "all_linked M es"
  shows "\<exists>s'. executeGrep (context_callback M H st) es s = Inr s' \<and>
           count s' = count s + length es \<and>
           flushes (bw s') = flushes (bw s) + cadence (count s) (count s + length es) \<and>
           blocks_opened (bw s') = blocks_opened (bw s) + length es \<and>
           headers (bw s') = headers (bw s) + length es \<and>
           (Separator \<in> set (bw s') \<longrightarrow> Separator \<in> set (bw s))"
  using assms
proof (induction es arbitrary: s)
  case Nil
  then show ?case by (simp add: cadence_empty)
next
  case (Cons e es)
  from Cons.prems have new: "lastName s \<noteq> name e" by auto
  from Cons.prems obtain u where u: "JobURI (fst (M (name e))) = Some u"
    by (auto simp: all_linked_def)
  from context_callback_new [of s e M u H st] new u obtain s1 where
    step: "context_callback M H st e s = Inr s1" and
    c1: "count s1 = Suc (count s)" and l1: "lastName s1 = name e" and
    b1: "bw s1 = bw s @ (if due (count s) then [Flush] else []) @
           (if count s > 0 then [BlockClose] else []) @ heading M H st (name e) u @ hit e"
    by blast
  from Cons.prems l1 have p: "distinct (map name es)" "lastName s1 \<notin> set (map name es)" "all_linked M es"
    by (auto simp: all_linked_def)
  from Cons.IH [OF p] obtain s' where
    run: "executeGrep (context_callback M H st) es s1 = Inr s'" and
    c: "count s' = count s1 + length es" and
    f: "flushes (bw s') = flushes (bw s1) + cadence (count s1) (count s1 + length es)" and
    o: "blocks_opened (bw s') = blocks_opened (bw s1) + length es" and
    h: "headers (bw s') = headers (bw s1) + length es" and
    sep: "Separator \<in> set (bw s') \<longrightarrow> Separator \<in> set (bw s1)"
    by blast
  have f1: "flushes (bw s1) = flushes (bw s) + (if due (count s) then 1 else 0)"
    by (simp add: b1 flushes_simps flushes_hit flushes_heading)
  have o1: "blocks_opened (bw s1) = Suc (blocks_opened (bw s))"
    by (simp add: b1 blocks_opened_simps blocks_opened_hit blocks_opened_heading)
  have h1: "headers (bw s1) = Suc (headers (bw s))"
    by (simp add: b1 headers_simps headers_hit headers_heading)
  have sep1: "Separator \<in> set (bw s1) \<longrightarrow> Separator \<in> set (bw s)"
    using Separator_hit [of e] Separator_heading [of M H st "name e" u] by (auto simp: b1)
  have cad: "cadence (count s) (count s + length (e # es)) =
      (if due (count s) then 1 else 0) + cadence (count s1) (count s1 + length es)"
    using cadence_step [of "count s" "count s + length (e # es)"] by (simp add: c1)
  have "executeGrep (context_callback M H st) (e # es) s = Inr s'"
    using step run by simp
  moreover have "count s' = count s + length (e # es)"
    using c c1 by simp
  moreover have "flushes (bw s') = flushes (bw s) + cadence (count s) (count s + length (e # es))"
    using f f1 cad by simp
  moreover have "blocks_opened (bw s') = blocks_opened (bw s) + length (e # es)"
    using o o1 by simp
  moreover have "headers (bw s') = headers (bw s) + length (e # es)"
    using h h1 by simp
  moreover have "Separator \<in> set (bw s') \<longrightarrow> Separator \<in> set (bw s)"
    using sep sep1 by blast
  ultimately show ?case by blast
qed



lemma summary_callback_same:
  assumes "lastName s = name e"
  shows "summary_callback M H st e s = Inr ((flush_due s)\<lparr>currentLines := currentLines s + 1\<rparr>)"
  using assms by (simp add: summary_callback_def flush_due_fields Let_def)

lemma summary_callback_skip:
  assumes "lastName s \<noteq> name e" and "JobURI (fst (M (name e))) = None"
  shows "summary_callback M H st e s = Inr ((flush_due s)\<lparr>lastName := name e\<rparr>)"
  using assms by (simp add: summary_callback_def flush_due_fields Let_def)

lemma summary_callback_new:
  assumes "lastName s \<noteq> name e" and "JobURI (fst (M (name e))) = Some u"
  shows "\<exists>s'. summary_callback M H st e s = Inr s' \<and> count s' = Suc (count s) \<and>
           lastName s' = name e \<and>
           currentLines s' = (if count s > 0 then 1 else currentLines s + 1) \<and>
           bw s' = bw s @ (if due (count s) then [Flush] else []) @
                   (if count s > 0 then [HitCount (currentLines s), RowClose] else []) @
                   [RowOpen, RowCells (FileType (fst (M (name e)))) u (Name (fst (M (name e))))
                      (Number (fst (M (name e)))) (summary_age H st (fst (M (name e))))]"
  using assms
  by (simp add: summary_callback_def flush_due_fields JobURI_String_def Let_def emit_def)


lemma summary_fresh_run:
  assumes "distinct (map name es)" and "lastName s \<notin> set (map name es)" and "all_linked M es"
  shows "\<exists>s'. executeGrep (summary_callback M H st) es s = Inr s' \<and>
           count s' = count s + length es \<and>
           flushes (bw s') = flushes (bw s) + cadence (count s) (count s + length es)"
  using assms
proof (induction es arbitrary: s)
  case Nil
  then show ?case by (simp add: cadence_empty)
next
  case (Cons e es)
  from Cons.prems have new: "lastName s \<noteq> name e" by auto
  from Cons.prems obtain u where u: "JobURI (fst (M (name e))) = Some u"
    by (auto simp: all_linked_def)
  from summary_callback_new [of s e M u H st] new u obtain s1 where
    step: "summary_callback M H st e s = Inr s1" and
    c1: "count s1 = Suc (count s)" and l1: "lastName s1 = name e" and
    f1: "flushes (bw s1) = flushes (bw s) + (if due (count s) then 1 else 0)"
    by (auto simp: flushes_simps)
  from Cons.prems l1 have p: "distinct (map name es)" "lastName s1 \<notin> set (map name es)" "all_linked M es"
    by (auto simp: all_linked_def)
  from Cons.IH [OF p] obtain s' where
    run: "executeGrep (summary_callback M H st) es s1 = Inr s'" and
    c: "count s' = count s1 + length es" and
    f: "flushes (bw s') = flushes (bw s1) + cadence (count s1) (count s1 + length es)"
    by blast
  have cad: "cadence (count s) (count s + length (e # es)) =
      (if due (count s) then 1 else 0) + cadence (count s1) (count s1 + length es)"
    using cadence_step [of "count s" "count s + length (e # es)"] by (simp add: c1)
  have "executeGrep (summary_callback M H st) (e # es) s = Inr s'"
    using step run by simp
  moreover have "count s' = count s + length (e # es)"
    using c c1 by simp
  moreover have "flushes (bw s') = flushes (bw s) + cadence (count s) (count s + length (e # es))"
    using f f1 cad by simp
  ultimately show ?case by blast
qed

lemma context_unnamed_run:
  assumes "\<forall>e \<in> set events. name e = []" and "count s = 0" and "lastName s = []"
  shows "executeGrep (context_callback M H st) events s =
           Inr (s\<lparr>lineCount := lineCount s + sum_list (map (\<lambda>e. length (hit_lines (matches e))) events),
                  bw := bw s @ concat (map (\<lambda>e. Flush # Separator # hit e) events)\<rparr>)"
  using assms
proof (induction events arbitrary: s)
  case Nil
  then show ?case by simp
next
  case (Cons e es)
  let ?s1 = "s\<lparr>lineCount := lineCount s + length (hit_lines (matches e)),
                bw := bw s @ Flush # Separator # hit e\<rparr>"
  from Cons.prems have same: "lastName s = name e" by simp
  have "context_hit e (emit [Separator] (flush_due s)) = ?s1"
    using Cons.prems(2)
    by (simp add: context_hit_def emit_def flush_due_def hit_def Let_def)
  with context_callback_same [OF same] have step: "context_callback M H st e s = Inr ?s1"
    by simp
  from Cons.prems have "\<forall>e \<in> set es. name e = []" "count ?s1 = 0" "lastName ?s1 = []"
    by simp_all
  from Cons.IH [OF this] step show ?case by (simp add: add.assoc)
qed

lemma summary_unnamed_run:
  assumes "\<forall>e \<in> set events. name e = []" and "count s = 0" and "lastName s = []"
  shows "executeGrep (summary_callback M H st) events s =
           Inr (s\<lparr>currentLines := currentLines s + length events,
                  bw := bw s @ replicate (length events) Flush\<rparr>)"
  using assms
proof (induction events arbitrary: s)
  case Nil
  then show ?case by simp
next
  case (Cons e es)
  let ?s1 = "s\<lparr>currentLines := currentLines s + 1, bw := bw s @ [Flush]\<rparr>"
  from Cons.prems have same: "lastName s = name e" by simp
  have "(flush_due s)\<lparr>currentLines := currentLines s + 1\<rparr> = ?s1"
    using Cons.prems(2) by (simp add: emit_def flush_due_def)
  with summary_callback_same [OF same] have step: "summary_callback M H st e s = Inr ?s1"
    by simp
  from Cons.prems have "\<forall>e \<in> set es. name e = []" "count ?s1 = 0" "lastName ?s1 = []"
    by simp_all
  from Cons.IH [OF this] step show ?case by (simp add: replicate_append_same)
qed

lemmas eval_defs = renderWithContext_def renderSummary_def context_callback_def context_block_def
  context_hit_def summary_callback_def flush_due_def emit_def init_def hit_lines_filter TrimRight_def
  ev_def known_def unknown_def human_def zero_Result_def JobURI_String_def context_age_def
  summary_age_def Let_def

lemma context_same_run_exact:
  assumes "\<forall>e \<in> set es. name e = lastName s"
  shows "\<exists>s'. executeGrep (context_callback M H st) es s = Inr s' \<and> count s' = count s \<and>
           lastName s' = lastName s \<and>
           bw s' = bw s @ concat (map (\<lambda>e. (if due (count s) then [Flush] else []) @ Separator # hit e) es)"
  using assms
proof (induction es arbitrary: s)
  case Nil
  then show ?case by simp
next
  case (Cons e es)
  let ?s1 = "context_hit e (emit [Separator] (flush_due s))"
  from Cons.prems have same: "lastName s = name e" by simp
  then have step: "context_callback M H st e s = Inr ?s1"
    by (rule context_callback_same)
  have f1: "count ?s1 = count s" "lastName ?s1 = lastName s"
    by (simp_all add: context_hit_fields emit_def flush_due_fields)
  have w1: "bw ?s1 = bw s @ (if due (count s) then [Flush] else []) @ Separator # hit e"
    by (simp add: context_hit_bw emit_def flush_due_fields)
  from Cons.prems f1 have "\<forall>e' \<in> set es. name e' = lastName ?s1" by simp
  from Cons.IH [OF this] obtain s' where
    run: "executeGrep (context_callback M H st) es ?s1 = Inr s'" and
    c: "count s' = count ?s1" and l: "lastName s' = lastName ?s1" and
    w: "bw s' = bw ?s1 @ concat (map (\<lambda>e. (if due (count ?s1) then [Flush] else []) @ Separator # hit e) es)"
    by blast
  have "executeGrep (context_callback M H st) (e # es) s = Inr s'"
    using step run by simp
  moreover have "bw s' = bw s @ concat (map (\<lambda>e. (if due (count s) then [Flush] else []) @ Separator # hit e) (e # es))"
    using w w1 f1 by simp
  ultimately show ?case using c l f1 by auto
qed

lemma not_due_1: "\<not> due (Suc 0)"
  by (simp add: due_def)

lemma due_0: "due 0"
  by (simp add: due_def)

lemma init_fields:
  "count (init w) = 0" "lastName (init w) = []" "lineCount (init w) = 0"
  "currentLines (init w) = 0" "bw (init w) = w"
  by (simp_all add: init_def)

lemma headers_separated:
  "headers (concat (map (\<lambda>e. (if b then [Flush] else []) @ Separator # hit e) es)) = 0"
  by (induction es) (simp_all add: headers_simps headers_hit)

lemma context_callback_extends:
  assumes "context_callback M H st e s = Inr s'"
  shows "\<exists>ts. bw s' = bw s @ ts"
proof (cases "lastName s = name e")
  case True
  from context_callback_same [OF True, of M H st] assms
  have "s' = context_hit e (emit [Separator] (flush_due s))" by simp
  then show ?thesis by (simp add: context_hit_bw emit_def flush_due_fields)
next
  case False
  show ?thesis
  proof (cases "JobURI (fst (M (name e)))")
    case None
    from context_callback_nil [of s e M H st] False None assms show ?thesis by simp
  next
    case (Some u)
    from context_callback_new [of s e M u H st] False Some assms show ?thesis by auto
  qed
qed

lemma context_exec_extends:
  "executeGrep (context_callback M H st) es s = Inr s' \<Longrightarrow> \<exists>ts. bw s' = bw s @ ts"
proof (induction es arbitrary: s)
  case Nil
  then show ?case by simp
next
  case (Cons e es)
  from Cons.prems obtain s1 where
    step: "context_callback M H st e s = Inr s1" and
    run: "executeGrep (context_callback M H st) es s1 = Inr s'"
    by (auto split: sum.splits)
  from context_callback_extends [OF step] Cons.IH [OF run] show ?case by auto
qed

lemma summary_callback_extends:
  assumes "summary_callback M H st e s = Inr s'"
  shows "\<exists>ts. bw s' = bw s @ ts"
proof (cases "lastName s = name e")
  case True
  from summary_callback_same [OF True, of M H st] assms show ?thesis
    by (auto simp: flush_due_fields)
next
  case False
  show ?thesis
  proof (cases "JobURI (fst (M (name e)))")
    case None
    from summary_callback_skip [of s e M H st] False None assms show ?thesis
      by (auto simp: flush_due_fields)
  next
    case (Some u)
    from summary_callback_new [of s e M u H st] False Some assms show ?thesis by auto
  qed
qed

lemma summary_exec_extends:
  "executeGrep (summary_callback M H st) es s = Inr s' \<Longrightarrow> \<exists>ts. bw s' = bw s @ ts"
proof (induction es arbitrary: s)
  case Nil
  then show ?case by simp
next
  case (Cons e es)
  from Cons.prems obtain s1 where
    step: "summary_callback M H st e s = Inr s1" and
    run: "executeGrep (summary_callback M H st) es s1 = Inr s'"
    by (auto split: sum.splits)
  from summary_callback_extends [OF step] Cons.IH [OF run] show ?case by auto
qed

lemma context_distinct_exec:
  assumes "distinct (map name events)" and "starts_named events" and "all_linked M events"
  shows "\<exists>s'. executeGrep (context_callback M H st) events (init []) = Inr s' \<and>
           count s' = length events \<and> flushes (bw s') = cadence 0 (length events) \<and>
           blocks_opened (bw s') = length events \<and> headers (bw s') = length events \<and>
           Separator \<notin> set (bw s') \<and>
           (events \<noteq> [] \<longrightarrow> (\<exists>ts. bw s' = Flush # BlockOpen # ts))"
proof (cases events)
  case Nil
  then show ?thesis by (simp add: init_fields flushes_simps blocks_opened_simps headers_simps cadence_empty)
next
  case (Cons e es)
  with assms have new: "lastName (init []) \<noteq> name e"
    by (simp add: starts_named_def init_fields)
  from assms Cons obtain u where u: "JobURI (fst (M (name e))) = Some u"
    by (auto simp: all_linked_def)
  from context_callback_new [of "init []" e M u H st] new u obtain s1 where
    step: "context_callback M H st e (init []) = Inr s1" and
    c1: "count s1 = Suc 0" and l1: "lastName s1 = name e" and
    b1: "bw s1 = Flush # heading M H st (name e) u @ hit e"
    by (auto simp: init_fields due_0)
  from assms Cons l1 have p: "distinct (map name es)" "lastName s1 \<notin> set (map name es)" "all_linked M es"
    by (auto simp: all_linked_def)
  from context_fresh_run [OF p, of H st] obtain s' where
    run: "executeGrep (context_callback M H st) es s1 = Inr s'" and
    c: "count s' = count s1 + length es" and
    f: "flushes (bw s') = flushes (bw s1) + cadence (count s1) (count s1 + length es)" and
    o: "blocks_opened (bw s') = blocks_opened (bw s1) + length es" and
    h: "headers (bw s') = headers (bw s1) + length es" and
    sep: "Separator \<in> set (bw s') \<longrightarrow> Separator \<in> set (bw s1)"
    by blast
  from context_exec_extends [OF run] obtain ts where ts: "bw s' = bw s1 @ ts" by blast
  have e1: "executeGrep (context_callback M H st) events (init []) = Inr s'"
    using Cons step run by simp
  have e2: "count s' = length events"
    using Cons c c1 by simp
  have "cadence 0 (length events) = 1 + cadence (Suc 0) (Suc 0 + length es)"
    using cadence_step [of 0 "length events"] Cons by (simp add: due_0)
  moreover have "flushes (bw s1) = 1"
    by (simp add: b1 flushes_simps flushes_heading flushes_hit)
  ultimately have e3: "flushes (bw s') = cadence 0 (length events)"
    using f c1 by simp
  have e4: "blocks_opened (bw s') = length events"
    using o Cons by (simp add: b1 blocks_opened_simps blocks_opened_heading blocks_opened_hit)
  have e5: "headers (bw s') = length events"
    using h Cons by (simp add: b1 headers_simps headers_heading headers_hit)
  have e6: "Separator \<notin> set (bw s')"
    using sep Separator_hit [of e] Separator_heading [of M H st "name e" u] by (auto simp: b1)
  have e7: "\<exists>ts. bw s' = Flush # BlockOpen # ts"
    using ts by (simp add: b1 heading_def Let_def)
  from e1 e2 e3 e4 e5 e6 e7 show ?thesis by blast
qed

lemma summary_distinct_exec:
  assumes "distinct (map name events)" and "starts_named events" and "all_linked M events"
  shows "\<exists>s'. executeGrep (summary_callback M H st) events (init [TableOpen]) = Inr s' \<and>
           count s' = length events \<and> flushes (bw s') = cadence 0 (length events) \<and>
           (events \<noteq> [] \<longrightarrow> (\<exists>ts. bw s' = TableOpen # Flush # RowOpen # ts))"
proof (cases events)
  case Nil
  then show ?thesis by (simp add: init_fields flushes_simps cadence_empty)
next
  case (Cons e es)
  with assms have new: "lastName (init [TableOpen]) \<noteq> name e"
    by (simp add: starts_named_def init_fields)
  from assms Cons obtain u where u: "JobURI (fst (M (name e))) = Some u"
    by (auto simp: all_linked_def)
  from summary_callback_new [of "init [TableOpen]" e M u H st] new u obtain s1 where
    step: "summary_callback M H st e (init [TableOpen]) = Inr s1" and
    c1: "count s1 = Suc 0" and l1: "lastName s1 = name e" and
    b1: "\<exists>t. bw s1 = [TableOpen, Flush, RowOpen, t]" and
    f1: "flushes (bw s1) = 1"
    by (auto simp: init_fields due_0 flushes_simps)
  from assms Cons l1 have p: "distinct (map name es)" "lastName s1 \<notin> set (map name es)" "all_linked M es"
    by (auto simp: all_linked_def)
  from summary_fresh_run [OF p, of H st] obtain s' where
    run: "executeGrep (summary_callback M H st) es s1 = Inr s'" and
    c: "count s' = count s1 + length es" and
    f: "flushes (bw s') = flushes (bw s1) + cadence (count s1) (count s1 + length es)"
    by blast
  from summary_exec_extends [OF run] obtain ts where ts: "bw s' = bw s1 @ ts" by blast
  have e1: "executeGrep (summary_callback M H st) events (init [TableOpen]) = Inr s'"
    using Cons step run by simp
  have e2: "count s' = length events"
    using Cons c c1 by simp
  have "cadence 0 (length events) = 1 + cadence (Suc 0) (Suc 0 + length es)"
    using cadence_step [of 0 "length events"] Cons by (simp add: due_0)
  with f1 have e3: "flushes (bw s') = cadence 0 (length events)"
    using f c1 by simp
  have e7: "\<exists>ts. bw s' = TableOpen # Flush # RowOpen # ts"
    using ts b1 by auto
  from e1 e2 e3 e7 show ?thesis by blast
qed

lemma cadence_120: "cadence 0 120 = 4"
  unfolding cadence_def due_def by code_simp

lemma sources_names: "map name (sources n) = map (\<lambda>i. replicate (Suc i) (CHR ''a'')) [0..<n]"
  by (simp add: sources_def ev_def)

lemma sources_distinct: "distinct (map name (sources n))"
proof -
  have "inj_on (\<lambda>i. replicate (Suc i) (CHR ''a'')) (set [0..<n])"
  proof (rule inj_onI)
    fix i j
    assume "replicate (Suc i) (CHR ''a'') = replicate (Suc j) (CHR ''a'')"
    then have "length (replicate (Suc i) (CHR ''a'')) = length (replicate (Suc j) (CHR ''a''))"
      by (rule arg_cong)
    then show "i = j" by simp
  qed
  then show ?thesis by (simp add: sources_names distinct_map)
qed

lemma sources_starts_named: "starts_named (sources n)"
  by (cases n) (simp_all add: sources_def starts_named_def ev_def upt_conv_Cons del: upt_Suc)

lemma sources_linked: "all_linked known (sources n)"
  by (simp add: all_linked_def sources_def ev_def known_def list_all_iff)

lemma sources_length: "length (sources n) = n"
  by (simp add: sources_def)

lemma parse_type_cases:
  "(bad_type req \<longrightarrow> parse_type req i = Inl SearchTypeError) \<and>
   (\<not> bad_type req \<longrightarrow> parse_type req i =
      Inr (i\<lparr>SearchType := (if FormValue req ''type'' = [] then ''all'' else FormValue req ''type'')\<rparr>))"
proof -
  define t where "t = FormValue req ''type''"
  have b: "bad_type req = (t \<noteq> ''junit'' \<and> t \<noteq> ''build-log'' \<and> t \<noteq> ''all'' \<and> t \<noteq> [])"
    by (simp add: bad_type_def t_def)
  have p: "parse_type req i =
     (if t = ''junit'' then Inr (i\<lparr>SearchType := ''junit''\<rparr>)
         else if t = ''build-log'' then Inr (i\<lparr>SearchType := ''build-log''\<rparr>)
         else if t = ''all'' \<or> t = [] then Inr (i\<lparr>SearchType := ''all''\<rparr>)
         else Inl SearchTypeError)"
    by (simp only: parse_type_def Let_def t_def)
  consider "t = ''junit''" | "t = ''build-log''" | "t = ''all''" | "t = []"
    | "t \<noteq> ''junit'' \<and> t \<noteq> ''build-log'' \<and> t \<noteq> ''all'' \<and> t \<noteq> []"
    by blast
  then show ?thesis
  proof cases
    case 1
    then show ?thesis unfolding b p t_def [symmetric] by simp
  next
    case 2
    then show ?thesis unfolding b p t_def [symmetric] by simp
  next
    case 3
    then show ?thesis unfolding b p t_def [symmetric] by simp
  next
    case 4
    then show ?thesis unfolding b p t_def [symmetric] by simp
  next
    case 5
    then show ?thesis unfolding b p t_def [symmetric] by simp
  qed
qed

lemma parse_name_cases:
  "(bad_name l req mode \<longrightarrow> parse_name l req mode i = Inl NameError) \<and>
   (\<not> bad_name l req mode \<longrightarrow> (\<exists>j. parse_name l req mode i = Inr (i\<lparr>Job := j\<rparr>)))"
proof -
  define v where "v = FormValue req ''name''"
  have i: "i = i\<lparr>Job := Job i\<rparr>" by simp
  have b: "bad_name l req mode = (if v \<noteq> [] then \<not> Compile l v else mode = ''chart'' \<and> \<not> Compile l ''-e2e-'')"
    by (simp only: bad_name_def v_def)
  have p: "parse_name l req mode i =
      (if length v > 0 \<or> mode = ''chart''
         then (if Compile l (if length v = 0 then ''-e2e-'' else v)
               then Inr (i\<lparr>Job := Some (if length v = 0 then ''-e2e-'' else v)\<rparr>) else Inl NameError)
         else Inr i)"
    by (simp only: parse_name_def Let_def v_def)
  show ?thesis
  proof (cases "v = []")
    case True
    show ?thesis
    proof (cases "mode = ''chart''")
      case c: True
      show ?thesis unfolding b p using True c by auto
    next
      case c: False
      have "\<exists>j. Inr i = (Inr (i\<lparr>Job := j\<rparr>) :: error + Index)" using i by metis
      then show ?thesis unfolding b p using True c by simp
    qed
  next
    case False
    then show ?thesis unfolding b p by auto
  qed
qed

lemma parse_maxAge_cases:
  "(bad_maxAge l req \<longrightarrow> (\<exists>e. parse_maxAge m l req mode i = Inl e)) \<and>
   (\<not> bad_maxAge l req \<longrightarrow> (\<exists>d. parse_maxAge m l req mode i = Inr (i\<lparr>MaxAge := d\<rparr>)))"
proof -
  define v where "v = FormValue req ''maxAge''"
  define cap where "cap = (let maxAge = m;
                 maxAge = (if maxAge = 0 then 7 * 24 * Hour else maxAge);
                 maxAge = (if mode = ''chart'' \<and> maxAge > 24 * Hour then 24 * Hour else maxAge)
             in maxAge)"
  define parsed where "parsed =
            (if length v > 0
             then (case ParseDuration l v of
                     None \<Rightarrow> Inl MaxAgeInvalid
                   | Some maxAge \<Rightarrow>
                       if maxAge < 0 then Inl MaxAgeNegative else Inr (i\<lparr>MaxAge := maxAge\<rparr>))
             else Inr i)"
  have b: "bad_maxAge l req = (v \<noteq> [] \<and> (case ParseDuration l v of None \<Rightarrow> True | Some d \<Rightarrow> d < 0))"
    by (simp only: bad_maxAge_def v_def)
  have p: "parse_maxAge m l req mode i =
      (case parsed of
           Inl e \<Rightarrow> Inl e
         | Inr index1 \<Rightarrow>
             if MaxAge index1 = 0 \<or> MaxAge index1 > cap
                then Inr (index1\<lparr>MaxAge := cap\<rparr>) else Inr index1)"
    by (simp only: parse_maxAge_def Let_def v_def parsed_def cap_def)
  have i: "\<exists>d. i = i\<lparr>MaxAge := d\<rparr>" by (rule exI [of _ "MaxAge i"]) simp
  show ?thesis
  proof (cases "bad_maxAge l req")
    case True
    then have "\<exists>e. parsed = Inl e"
      unfolding b parsed_def by (auto split: option.splits)
    then show ?thesis using True p by auto
  next
    case False
    then have "\<exists>d. parsed = Inr (i\<lparr>MaxAge := d\<rparr>)"
      unfolding b parsed_def using i by (auto split: option.splits)
    then obtain d where d: "parsed = Inr (i\<lparr>MaxAge := d\<rparr>)" by blast
    have "parse_maxAge m l req mode i =
        Inr (i\<lparr>MaxAge := (if d = 0 \<or> d > cap then cap else d)\<rparr>)"
      unfolding p d by simp
    then show ?thesis using False by blast
  qed
qed

lemma parse_context_cases:
  "(bad_context l req \<longrightarrow> parse_context l req mode i = Inl ContextError) \<and>
   (\<not> bad_context l req \<longrightarrow>
      parse_context l req mode i =
        Inr (if FormValue req ''context'' \<noteq> []
             then i\<lparr>Context := the (Atoi l (FormValue req ''context''))\<rparr>
             else if mode = ''text'' then i\<lparr>Context := 2\<rparr> else i))"
proof -
  define c where "c = FormValue req ''context''"
  have b: "bad_context l req = (c \<noteq> [] \<and> (case Atoi l c of None \<Rightarrow> True | Some n \<Rightarrow> n < - 1 \<or> 15 < n))"
    by (simp only: bad_context_def c_def)
  have p: "parse_context l req mode i =
      (if length c > 0
         then (case Atoi l c of
                 None \<Rightarrow> Inl ContextError
               | Some num \<Rightarrow>
                   if num < - 1 \<or> num > 15 then Inl ContextError
                   else Inr (i\<lparr>Context := num\<rparr>))
         else if mode = ''text'' then Inr (i\<lparr>Context := 2\<rparr>)
         else Inr i)"
    by (simp only: parse_context_def Let_def c_def)
  show ?thesis
    unfolding b p c_def [symmetric] by (cases "Atoi l c") auto
qed

lemma parseRequest_unfold:
  assumes "ParseForm req = None"
  shows "\<exists>i. Context i = 0 \<and> parseRequest m l req mode =
      (case parse_type req i of
                Inl e \<Rightarrow> Inl e
              | Inr index1 \<Rightarrow>
                  (case parse_name l req mode index1 of
                     Inl e \<Rightarrow> Inl e
                   | Inr index2 \<Rightarrow>
                       (case parse_maxAge m l req mode index2 of
                          Inl e \<Rightarrow> Inl e
                        | Inr index3 \<Rightarrow> parse_context l req mode index3)))"
proof -
  let ?i0 = "zero_Index\<lparr>Search := Form req ''search''\<rparr>"
  let ?i = "if length (Search ?i0) = 0 \<and> mode = ''chart''
            then ?i0\<lparr>Search := Search ?i0 @ chart_searches\<rparr> else ?i0"
  have "Context ?i = 0" by (simp add: zero_Index_def)
  moreover have "parseRequest m l req mode =
      (case parse_type req ?i of
                Inl e \<Rightarrow> Inl e
              | Inr index1 \<Rightarrow>
                  (case parse_name l req mode index1 of
                     Inl e \<Rightarrow> Inl e
                   | Inr index2 \<Rightarrow>
                       (case parse_maxAge m l req mode index2 of
                          Inl e \<Rightarrow> Inl e
                        | Inr index3 \<Rightarrow> parse_context l req mode index3)))"
    using assms by (simp only: parseRequest_def Let_def option.case)
  ultimately show ?thesis by (rule_tac x = ?i in exI) (rule conjI)
qed

lemma parseRequest_ok:
  assumes "ParseForm req = None" and "\<not> bad_type req" and "\<not> bad_name l req mode"
    and "\<not> bad_maxAge l req" and "\<not> bad_context l req"
  shows "\<exists>index. parseRequest m l req mode = Inr index \<and>
           SearchType index = (if FormValue req ''type'' = [] then ''all'' else FormValue req ''type'') \<and>
           Context index =
             (if FormValue req ''context'' \<noteq> [] then the (Atoi l (FormValue req ''context''))
              else if mode = ''text'' then 2 else 0)"
proof -
  from parseRequest_unfold [OF assms(1), of m l mode] obtain i where
    c0: "Context i = 0" and
    unfold: "parseRequest m l req mode =
      (case parse_type req i of
                Inl e \<Rightarrow> Inl e
              | Inr index1 \<Rightarrow>
                  (case parse_name l req mode index1 of
                     Inl e \<Rightarrow> Inl e
                   | Inr index2 \<Rightarrow>
                       (case parse_maxAge m l req mode index2 of
                          Inl e \<Rightarrow> Inl e
                        | Inr index3 \<Rightarrow> parse_context l req mode index3)))"
    by blast
  define ty where "ty = (if FormValue req ''type'' = [] then ''all'' else FormValue req ''type'')"
  define i1 where "i1 = i\<lparr>SearchType := ty\<rparr>"
  have t: "parse_type req i = Inr i1"
    using parse_type_cases [of req i] assms(2) by (simp add: i1_def ty_def)
  obtain j where n: "parse_name l req mode i1 = Inr (i1\<lparr>Job := j\<rparr>)"
    using parse_name_cases [of l req mode i1] assms(3) by blast
  define i2 where "i2 = i1\<lparr>Job := j\<rparr>"
  obtain d where a: "parse_maxAge m l req mode i2 = Inr (i2\<lparr>MaxAge := d\<rparr>)"
    using parse_maxAge_cases [of l req m mode i2] assms(4) by blast
  define i3 where "i3 = i2\<lparr>MaxAge := d\<rparr>"
  have f3: "SearchType i3 = ty" "Context i3 = 0"
    by (simp_all add: i3_def i2_def i1_def c0)
  define r where "r = (if FormValue req ''context'' \<noteq> []
             then i3\<lparr>Context := the (Atoi l (FormValue req ''context''))\<rparr>
             else if mode = ''text'' then i3\<lparr>Context := 2\<rparr> else i3)"
  have c: "parse_context l req mode i3 = Inr r"
    using parse_context_cases [of l req mode i3] assms(5) by (simp add: r_def)
  have 1: "parseRequest m l req mode = Inr r"
    using t n a c by (simp add: unfold i2_def i3_def)
  have 2: "SearchType r = ty"
    using f3 by (simp add: r_def)
  have 3: "Context r =
             (if FormValue req ''context'' \<noteq> [] then the (Atoi l (FormValue req ''context''))
              else if mode = ''text'' then 2 else 0)"
    using f3 by (simp add: r_def)
  from 1 2 3 show ?thesis unfolding ty_def by blast
qed

lemma parseRequest_bad:
  assumes "ParseForm req \<noteq> None \<or> bad_type req \<or> bad_name l req mode \<or> bad_maxAge l req \<or> bad_context l req"
  shows "\<exists>e. parseRequest m l req mode = Inl e"
proof (cases "ParseForm req")
  case (Some x)
  then show ?thesis by (simp add: parseRequest_def)
next
  case None
  from parseRequest_unfold [OF None, of m l mode] obtain i where
    unfold: "parseRequest m l req mode =
      (case parse_type req i of
                Inl e \<Rightarrow> Inl e
              | Inr index1 \<Rightarrow>
                  (case parse_name l req mode index1 of
                     Inl e \<Rightarrow> Inl e
                   | Inr index2 \<Rightarrow>
                       (case parse_maxAge m l req mode index2 of
                          Inl e \<Rightarrow> Inl e
                        | Inr index3 \<Rightarrow> parse_context l req mode index3)))"
    by blast
  show ?thesis
  proof (cases "parse_type req i")
    case (Inl e)
    then show ?thesis using unfold by simp
  next
    case (Inr i1)
    with parse_type_cases [of req i] have nt: "\<not> bad_type req" by auto
    show ?thesis
    proof (cases "parse_name l req mode i1")
      case (Inl e)
      then show ?thesis using unfold Inr by simp
    next
      case i2: (Inr i2)
      with parse_name_cases [of l req mode i1] have nn: "\<not> bad_name l req mode" by auto
      show ?thesis
      proof (cases "parse_maxAge m l req mode i2")
        case (Inl e)
        then show ?thesis using unfold Inr i2 by simp
      next
        case i3: (Inr i3)
        with parse_maxAge_cases [of l req m mode i2] have na: "\<not> bad_maxAge l req" by auto
        from assms None nt nn na have "bad_context l req" by simp
        with parse_context_cases [of l req mode i3]
        have "parse_context l req mode i3 = Inl ContextError" by blast
        then show ?thesis using unfold Inr i2 i3 by simp
      qed
    qed
  qed
qed

lemma FormValue_request:
  "FormValue (request kvs) k = (case filter (\<lambda>kv. fst kv = k) kvs of [] \<Rightarrow> [] | kv # _ \<Rightarrow> snd kv)"
  by (simp add: FormValue_def request_def split: list.splits)

lemma parseRequest_Context_range:
  assumes "parseRequest m l req mode = Inr index"
  shows "- 1 \<le> Context index \<and> Context index \<le> 15"
proof -
  from assms have "\<not> (\<exists>e. parseRequest m l req mode = Inl e)" by simp
  with parseRequest_bad [of req l mode m]
  have v: "ParseForm req = None" "\<not> bad_type req" "\<not> bad_name l req mode"
    "\<not> bad_maxAge l req" "\<not> bad_context l req"
    by blast+
  from parseRequest_ok [OF v, of m] assms
  have c: "Context index =
             (if FormValue req ''context'' \<noteq> [] then the (Atoi l (FormValue req ''context''))
              else if mode = ''text'' then 2 else 0)"
    by auto
  show ?thesis
  proof (cases "FormValue req ''context'' = []")
    case True
    with c show ?thesis by simp
  next
    case False
    with v(5) obtain n where "Atoi l (FormValue req ''context'') = Some n" "- 1 \<le> n" "n \<le> 15"
      by (auto simp: bad_context_def split: option.splits)
    with c False show ?thesis by simp
  qed
qed

lemma request_fields:
  "ParseForm (request kvs) = None" "Form (request kvs) k = map snd (filter (\<lambda>kv. fst kv = k) kvs)"
  by (simp_all add: request_def)

lemma runs_Cons: "\<exists>n rs. runs (x # xs) = (x, Suc n) # rs"
proof (induction xs arbitrary: x)
  case Nil
  then show ?case by simp
next
  case (Cons y ys)
  from Cons [of y] obtain n rs where "runs (y # ys) = (y, Suc n) # rs" by blast
  then show ?case by simp
qed

lemma runs_lengths: "map snd (runs xs) = run_lengths xs"
proof (induction xs rule: runs.induct)
  case 1
  then show ?case by simp
next
  case (2 x)
  then show ?case by simp
next
  case (3 x y ys)
  obtain n rs where r: "runs (y # ys) = (y, Suc n) # rs" using runs_Cons by blast
  show ?case
  proof (cases "x = y")
    case True
    with 3 r have "run_lengths (y # ys) = Suc n # map snd rs" by simp
    with True r show ?thesis by simp
  next
    case False
    with 3 show ?thesis by simp
  qed
qed



lemma Flush_hit: "Flush \<notin> set (hit e)"
  by (auto simp: hit_def)

lemma Flush_heading: "Flush \<notin> set (heading M H st a u)"
  by (simp add: heading_def Let_def)

lemma context_callback_continues:
  assumes "lastName s = name e"
  shows "\<exists>s'. context_callback M H st e s = Inr s' \<and> count s' = count s \<and>
           lastName s' = lastName s \<and>
           bw s' = bw s @ (if due (count s) then [Flush] else []) @ Separator # hit e"
  using context_callback_same [OF assms, of M H st]
  by (simp add: context_hit_bw context_hit_fields emit_def flush_due_fields)

lemma summary_callback_continues:
  assumes "lastName s = name e"
  shows "\<exists>s'. summary_callback M H st e s = Inr s' \<and> count s' = count s \<and>
           lastName s' = lastName s \<and>
           bw s' = bw s @ (if due (count s) then [Flush] else [])"
  using summary_callback_same [OF assms, of M H st]
  by (simp add: flush_due_fields)

lemma context_callback_flush:
  assumes "context_callback M H st e s = Inr s'"
  shows "\<exists>ts. bw s' = bw s @ (if due (count s) then [Flush] else []) @ ts \<and> Flush \<notin> set ts"
proof (cases "lastName s = name e")
  case True
  from context_callback_continues [OF True, of M H st] assms
  have "bw s' = bw s @ (if due (count s) then [Flush] else []) @ Separator # hit e" by auto
  moreover have "Flush \<notin> set (Separator # hit e)" using Flush_hit [of e] by simp
  ultimately show ?thesis by blast
next
  case False
  show ?thesis
  proof (cases "JobURI (fst (M (name e)))")
    case None
    from context_callback_nil [of s e M H st] False None assms show ?thesis by simp
  next
    case (Some u)
    let ?ts = "(if count s > 0 then [BlockClose] else []) @ heading M H st (name e) u @ hit e"
    from context_callback_new [of s e M u H st] False Some assms
    have "bw s' = bw s @ (if due (count s) then [Flush] else []) @ ?ts" by auto
    moreover have "Flush \<notin> set ?ts"
      using Flush_hit [of e] Flush_heading [of M H st "name e" u] by simp
    ultimately show ?thesis by blast
  qed
qed

lemma summary_callback_flush:
  assumes "summary_callback M H st e s = Inr s'"
  shows "\<exists>ts. bw s' = bw s @ (if due (count s) then [Flush] else []) @ ts \<and> Flush \<notin> set ts"
proof (cases "lastName s = name e")
  case True
  from summary_callback_continues [OF True, of M H st] assms
  have "bw s' = bw s @ (if due (count s) then [Flush] else []) @ []" by auto
  then show ?thesis by (rule_tac x = "[]" in exI) simp
next
  case False
  show ?thesis
  proof (cases "JobURI (fst (M (name e)))")
    case None
    from summary_callback_skip [of s e M H st] False None assms
    have "bw s' = bw s @ (if due (count s) then [Flush] else []) @ []"
      by (auto simp: flush_due_fields)
    then show ?thesis by (rule_tac x = "[]" in exI) simp
  next
    case (Some u)
    let ?ts = "(if count s > 0 then [HitCount (currentLines s), RowClose] else []) @
                   [RowOpen, RowCells (FileType (fst (M (name e)))) u (Name (fst (M (name e))))
                      (Number (fst (M (name e)))) (summary_age H st (fst (M (name e))))]"
    from summary_callback_new [of s e M u H st] False Some assms
    have "bw s' = bw s @ (if due (count s) then [Flush] else []) @ ?ts" by auto
    moreover have "Flush \<notin> set ?ts" by simp
    ultimately show ?thesis by blast
  qed
qed

lemma flushes_step:
  assumes "bw s' = bw s @ (if due (count s) then [Flush] else []) @ ts" and "Flush \<notin> set ts"
  shows "flushes (bw s') = flushes (bw s) + (if due (count s) then 1 else 0)"
proof -
  from assms(2) have "filter (\<lambda>t. t = Flush) ts = []"
    by (induction ts) auto
  then have "flushes ts = 0" by (simp add: flushes_def)
  with assms(1) show ?thesis by (simp add: flushes_simps)
qed

lemma context_exec_flushes:
  "executeGrep (context_callback M H st) events s = Inr s' \<Longrightarrow>
   flushes (bw s') = flushes (bw s) + length (filter due (entry_counts (context_callback M H st) events s))"
proof (induction events arbitrary: s)
  case Nil
  then show ?case by simp
next
  case (Cons e es)
  from Cons.prems obtain s1 where
    step: "context_callback M H st e s = Inr s1" and
    run: "executeGrep (context_callback M H st) es s1 = Inr s'"
    by (auto split: sum.splits)
  from context_callback_flush [OF step] obtain ts where
    "bw s1 = bw s @ (if due (count s) then [Flush] else []) @ ts" "Flush \<notin> set ts" by blast
  then have f1: "flushes (bw s1) = flushes (bw s) + (if due (count s) then 1 else 0)"
    by (rule flushes_step)
  from Cons.IH [OF run] f1 step show ?case by simp
qed

lemma summary_exec_flushes:
  "executeGrep (summary_callback M H st) events s = Inr s' \<Longrightarrow>
   flushes (bw s') = flushes (bw s) + length (filter due (entry_counts (summary_callback M H st) events s))"
proof (induction events arbitrary: s)
  case Nil
  then show ?case by simp
next
  case (Cons e es)
  from Cons.prems obtain s1 where
    step: "summary_callback M H st e s = Inr s1" and
    run: "executeGrep (summary_callback M H st) es s1 = Inr s'"
    by (auto split: sum.splits)
  from summary_callback_flush [OF step] obtain ts where
    "bw s1 = bw s @ (if due (count s) then [Flush] else []) @ ts" "Flush \<notin> set ts" by blast
  then have f1: "flushes (bw s1) = flushes (bw s) + (if due (count s) then 1 else 0)"
    by (rule flushes_step)
  from Cons.IH [OF run] f1 step show ?case by simp
qed

lemma context_render_flushes:
  assumes "renderWithContext M H st events err = Inr (ts, n, x)"
  shows "\<exists>ts'. ts = ts' @ [Flush] \<and>
           flushes ts' = length (filter due (entry_counts (context_callback M H st) events (init [])))"
proof -
  from assms obtain s' where
    run: "executeGrep (context_callback M H st) events (init []) = Inr s'" and
    ts: "ts = (bw s' @ (if count s' > 0 then [BlockClose] else [])) @ [Flush]"
    by (auto simp: renderWithContext_def emit_def Let_def split: sum.splits if_splits)
  from context_exec_flushes [OF run]
  have "flushes (bw s' @ (if count s' > 0 then [BlockClose] else [])) =
      length (filter due (entry_counts (context_callback M H st) events (init [])))"
    by (simp add: flushes_simps init_fields)
  with ts show ?thesis by blast
qed

lemma summary_render_flushes:
  assumes "renderSummary M H st events err = Inr (us, n, x)"
  shows "\<exists>us'. us = us' @ [Flush] \<and>
           flushes us' = length (filter due (entry_counts (summary_callback M H st) events (init [TableOpen])))"
proof -
  from assms obtain s' where
    run: "executeGrep (summary_callback M H st) events (init [TableOpen]) = Inr s'" and
    us: "us = (bw s' @ (if count s' > 0 then [HitCount (currentLines s'), RowClose] else [])) @ [Flush]"
    by (auto simp: renderSummary_def emit_def Let_def split: sum.splits if_splits)
  from summary_exec_flushes [OF run]
  have "flushes (bw s' @ (if count s' > 0 then [HitCount (currentLines s'), RowClose] else [])) =
      length (filter due (entry_counts (summary_callback M H st) events (init [TableOpen])))"
    by (simp add: flushes_simps init_fields)
  with us show ?thesis by blast
qed

lemma at_count_fields:
  "count (at_count c a) = c" "lastName (at_count c a) = a" "bw (at_count c a) = []"
  by (simp_all add: at_count_def)

section \<open>The claims\<close>

subsection \<open>C1: a metadata miss in the context renderer\<close>

text \<open>
  Claim C1 says that when the resolver returns found = false with the zero-value
  metadata, the context renderer still renders the block, with empty header fields,
  and the render does not fail. On the code the found flag is dropped at line 305 and
  line 312 calls \<^verbatim>\<open>result.JobURI.String()\<close> on the nil \<^verbatim>\<open>JobURI\<close> of
  the zero value, which the summary renderer guards against at line 371 and the
  context renderer does not. For a resolver that knows no source, one event of the
  source \<open>A\<close> ends the render in a nil pointer dereference: no block is produced
  and nothing is returned.
\<close>

theorem context_miss_panics:
  "fst (unknown ''A'') = zero_Result \<and> \<not> snd (unknown ''A'') \<and>
   renderWithContext unknown human 0 [ev ''A'' [''timeout'']] (None :: unit option) =
     Inl NilPointerDereference"
  by (simp add: eval_defs)

subsection \<open>C2: a block without a job URL in the summary renderer\<close>

text \<open>
  Claim C2 says that a block whose metadata has no job URL is skipped entirely and
  that every emitted row's hit count still counts only the events of its own block.
  The first event of such a block returns at line 373 before the counter of line 387,
  but the later events of the same block take the branch of line 359 and are counted
  into the row that is still open. For the events \<open>A, X, X, B\<close>, where only
  \<open>X\<close> has no job URL, no row is written for \<open>X\<close> and the returned count is
  2, but the row of \<open>A\<close> is written with 2 hits although its block has one
  event.
\<close>

theorem summary_skipped_block_counted:
  "renderSummary known human 0
     [ev ''A'' [''timeout''], ev ''X'' [''timeout''], ev ''X'' [''timeout''], ev ''B'' [''timeout'']]
     (None :: unit option) =
   Inr ([TableOpen, Flush,
         RowOpen, RowCells ''junit'' ''https://ci/A'' ''A'' 7 [], HitCount 2, RowClose,
         RowOpen, RowCells ''junit'' ''https://ci/B'' ''B'' 7 [], HitCount 1, RowClose,
         Flush], 2, None)"
  by (simp add: eval_defs)

subsection \<open>C3: blank lines of a hit\<close>

text \<open>
  Claim C3 says that leading and trailing blank lines of a hit are stripped and that
  interior blank lines are preserved. The comment of line 315 says the same
  ("remove empty leading and trailing lines"), but the loop of lines 317 to 323
  skips every line that is empty once its trailing spaces are trimmed, wherever it
  stands, and the loop of lines 324 to 329 then finds nothing to remove. The lines
  of a hit that are written are exactly the non-empty trimmed ones; the hit
  \<open>a\<close>, blank, \<open>b\<close> is written as \<open>a\<close>, \<open>b\<close>.
\<close>

theorem context_blank_lines_dropped:
  "hit_lines ms = filter (\<lambda>line. line \<noteq> []) (map (\<lambda>m. TrimRight m '' '') ms) \<and>
   hit_lines [''a'', [], ''b''] = [''a'', ''b''] \<and>
   renderWithContext known human 0 [ev ''A'' [''a'', [], ''b'']] (None :: unit option) =
     Inr ([Flush, BlockOpen, Header ''junit'' ''build'' ''https://ci/A'' ''A'' 7 [],
           Line ''a'', Line ''b'', BlockClose, Flush], 1, None)"
  apply (intro conjI)
    apply (rule hit_lines_filter)
   apply (simp add: hit_lines_filter TrimRight_def)
  apply (simp add: renderWithContext_def context_callback_def context_block_def context_hit_def
      flush_due_def emit_def init_def hit_lines_filter TrimRight_def ev_def known_def
      JobURI_String_def context_age_def Let_def)
  done

subsection \<open>C4: the flush cadence\<close>

text \<open>
  Claim C4 says that both renderers flush after the very first block is opened and
  then every 50 blocks, never on every single hit, and that 120 sequential
  single-hit sources give at least 3 cadence flushes and the first-block flush.
  As stated it fails: the test of lines 292 and 356 stands at the head of the
  callback, outside the branch that opens a block, so it flushes before the first
  block is opened, and it flushes again on every hit that arrives while the count
  of blocks stands at 5 (or at a multiple of 50). With five sources, the fifth
  with three hits, the second and the third hit of the fifth block are each
  preceded by a flush.
\<close>

theorem flush_every_hit_counterexample:
  "renderWithContext known human 0
     [ev ''A'' [''l''], ev ''B'' [''l''], ev ''C'' [''l''], ev ''D'' [''l''],
      ev ''E'' [''l''], ev ''E'' [''m''], ev ''E'' [''n'']] (None :: unit option) =
   Inr ([Flush,
         BlockOpen, Header ''junit'' ''build'' ''https://ci/A'' ''A'' 7 [], Line ''l'', BlockClose,
         BlockOpen, Header ''junit'' ''build'' ''https://ci/B'' ''B'' 7 [], Line ''l'', BlockClose,
         BlockOpen, Header ''junit'' ''build'' ''https://ci/C'' ''C'' 7 [], Line ''l'', BlockClose,
         BlockOpen, Header ''junit'' ''build'' ''https://ci/D'' ''D'' 7 [], Line ''l'', BlockClose,
         BlockOpen, Header ''junit'' ''build'' ''https://ci/E'' ''E'' 7 [], Line ''l'',
         Flush, Separator, Line ''m'',
         Flush, Separator, Line ''n'',
         BlockClose, Flush], 5, None)"
  by (simp add: eval_defs)

text \<open>
  Claim C4, amended: each callback, of either renderer, starts with a flush exactly
  when the number of blocks opened so far is 5 or a multiple of 50 (0 included),
  and flushes nowhere else; so a hit that continues the open block while that
  number stands at 5, 50, 100 and so on is preceded by a flush, and the number
  does not change. The renderer flushes once more, last of all, when the stream
  has ended, so the flushes before it are as many as the events that arrived at
  such a number. For a stream of sources with pairwise distinct identifiers, the
  first of them not the empty string, that all resolve to a job URL, each
  renderer flushes \<open>cadence 0 n + 1\<close> times for \<open>n\<close> events; the first flush
  comes before the first block (the first row) is opened; and for 120 such
  sources each renderer flushes 5 times: at the counts 0, 5, 50 and 100 and at
  the end.
\<close>

theorem flush_cadence:
  "(context_callback M H st e s = Inr s' \<longrightarrow>
      (\<exists>ts. bw s' = bw s @ (if due (count s) then [Flush] else []) @ ts \<and> Flush \<notin> set ts)) \<and>
   (summary_callback M H st e s = Inr r' \<longrightarrow>
      (\<exists>ts. bw r' = bw s @ (if due (count s) then [Flush] else []) @ ts \<and> Flush \<notin> set ts)) \<and>
   (lastName s = name e \<longrightarrow>
      (\<exists>s'. context_callback M H st e s = Inr s' \<and> count s' = count s \<and>
            lastName s' = lastName s \<and>
            bw s' = bw s @ (if due (count s) then [Flush] else []) @ Separator # hit e) \<and>
      (\<exists>r'. summary_callback M H st e s = Inr r' \<and> count r' = count s \<and>
            lastName r' = lastName s \<and>
            bw r' = bw s @ (if due (count s) then [Flush] else []))) \<and>
   (renderWithContext M H st events err = Inr (ts, n, x) \<longrightarrow>
      (\<exists>ts'. ts = ts' @ [Flush] \<and>
             flushes ts' =
               length (filter due (entry_counts (context_callback M H st) events (init []))))) \<and>
   (renderSummary M H st events err = Inr (us, k, y) \<longrightarrow>
      (\<exists>us'. us = us' @ [Flush] \<and>
             flushes us' =
               length (filter due (entry_counts (summary_callback M H st) events (init [TableOpen]))))) \<and>
   (distinct (map name events) \<and> starts_named events \<and> all_linked M events \<longrightarrow>
      (\<exists>ts us.
           renderWithContext M H st events err = Inr (ts, length events, err) \<and>
           renderSummary M H st events err = Inr (us, length events, err) \<and>
           flushes ts = cadence 0 (length events) + 1 \<and>
           flushes us = cadence 0 (length events) + 1 \<and>
           (events \<noteq> [] \<longrightarrow> (\<exists>ts'. ts = Flush # BlockOpen # ts') \<and>
                                 (\<exists>us'. us = TableOpen # Flush # RowOpen # us')) \<and>
           (length events = 120 \<longrightarrow> flushes ts = 5 \<and> flushes us = 5)))"
proof -
  have 1: "context_callback M H st e s = Inr s' \<longrightarrow>
      (\<exists>ts. bw s' = bw s @ (if due (count s) then [Flush] else []) @ ts \<and> Flush \<notin> set ts)"
    using context_callback_flush [of M H st e s s'] by blast
  have 2: "summary_callback M H st e s = Inr r' \<longrightarrow>
      (\<exists>ts. bw r' = bw s @ (if due (count s) then [Flush] else []) @ ts \<and> Flush \<notin> set ts)"
    using summary_callback_flush [of M H st e s r'] by blast
  have 3: "lastName s = name e \<longrightarrow>
      (\<exists>s'. context_callback M H st e s = Inr s' \<and> count s' = count s \<and>
            lastName s' = lastName s \<and>
            bw s' = bw s @ (if due (count s) then [Flush] else []) @ Separator # hit e) \<and>
      (\<exists>r'. summary_callback M H st e s = Inr r' \<and> count r' = count s \<and>
            lastName r' = lastName s \<and>
            bw r' = bw s @ (if due (count s) then [Flush] else []))"
    using context_callback_continues [of s e M H st] summary_callback_continues [of s e M H st]
    by blast
  have 4: "renderWithContext M H st events err = Inr (ts, n, x) \<longrightarrow>
      (\<exists>ts'. ts = ts' @ [Flush] \<and>
             flushes ts' =
               length (filter due (entry_counts (context_callback M H st) events (init []))))"
    using context_render_flushes [of M H st events err ts n x] by blast
  have 5: "renderSummary M H st events err = Inr (us, k, y) \<longrightarrow>
      (\<exists>us'. us = us' @ [Flush] \<and>
             flushes us' =
               length (filter due (entry_counts (summary_callback M H st) events (init [TableOpen]))))"
    using summary_render_flushes [of M H st events err us k y] by blast
  have 6: "distinct (map name events) \<and> starts_named events \<and> all_linked M events \<longrightarrow>
      (\<exists>ts us.
           renderWithContext M H st events err = Inr (ts, length events, err) \<and>
           renderSummary M H st events err = Inr (us, length events, err) \<and>
           flushes ts = cadence 0 (length events) + 1 \<and>
           flushes us = cadence 0 (length events) + 1 \<and>
           (events \<noteq> [] \<longrightarrow> (\<exists>ts'. ts = Flush # BlockOpen # ts') \<and>
                                 (\<exists>us'. us = TableOpen # Flush # RowOpen # us')) \<and>
           (length events = 120 \<longrightarrow> flushes ts = 5 \<and> flushes us = 5))"
  proof
    assume a: "distinct (map name events) \<and> starts_named events \<and> all_linked M events"
    then have d: "distinct (map name events)" and n: "starts_named events"
      and l: "all_linked M events" by blast+
    from context_distinct_exec [OF d n l, of H st] obtain s' where
      run: "executeGrep (context_callback M H st) events (init []) = Inr s'" and
      c: "count s' = length events" and
      f: "flushes (bw s') = cadence 0 (length events)" and
      p: "events \<noteq> [] \<longrightarrow> (\<exists>ts. bw s' = Flush # BlockOpen # ts)"
      by blast
    from summary_distinct_exec [OF d n l, of H st] obtain r' where
      run': "executeGrep (summary_callback M H st) events (init [TableOpen]) = Inr r'" and
      c': "count r' = length events" and
      f': "flushes (bw r') = cadence 0 (length events)" and
      p': "events \<noteq> [] \<longrightarrow> (\<exists>ts. bw r' = TableOpen # Flush # RowOpen # ts)"
      by blast
    let ?ts = "bw s' @ (if count s' > 0 then [BlockClose] else []) @ [Flush]"
    let ?us = "bw r' @ (if count r' > 0 then [HitCount (currentLines r'), RowClose] else []) @ [Flush]"
    have a1: "renderWithContext M H st events err = Inr (?ts, length events, err)"
      using run c by (simp add: renderWithContext_def emit_def)
    have a2: "renderSummary M H st events err = Inr (?us, length events, err)"
      using run' c' by (simp add: renderSummary_def emit_def)
    have a3: "flushes ?ts = cadence 0 (length events) + 1"
      using f by (simp add: flushes_simps)
    have a4: "flushes ?us = cadence 0 (length events) + 1"
      using f' by (simp add: flushes_simps)
    have a5: "events \<noteq> [] \<longrightarrow> (\<exists>ts'. ?ts = Flush # BlockOpen # ts') \<and>
                                 (\<exists>us'. ?us = TableOpen # Flush # RowOpen # us')"
      using p p' by auto
    have a6: "length events = 120 \<longrightarrow> flushes ?ts = 5 \<and> flushes ?us = 5"
      using a3 a4 cadence_120 by simp
    from a1 a2 a3 a4 a5 a6 show "\<exists>ts us.
           renderWithContext M H st events err = Inr (ts, length events, err) \<and>
           renderSummary M H st events err = Inr (us, length events, err) \<and>
           flushes ts = cadence 0 (length events) + 1 \<and>
           flushes us = cadence 0 (length events) + 1 \<and>
           (events \<noteq> [] \<longrightarrow> (\<exists>ts'. ts = Flush # BlockOpen # ts') \<and>
                                 (\<exists>us'. us = TableOpen # Flush # RowOpen # us')) \<and>
           (length events = 120 \<longrightarrow> flushes ts = 5 \<and> flushes us = 5)"
      by blast
  qed
  from 1 2 3 4 5 6 show ?thesis by (intro conjI)
qed

theorem flush_cadence_witness:
  "lastName (at_count 5 ''E'') = name (ev ''E'' [''m'']) \<and>
   (\<exists>s'. context_callback known human 0 (ev ''E'' [''m'']) (at_count 5 ''E'') = Inr s' \<and>
         count s' = 5 \<and> bw s' = [Flush, Separator, Line ''m'']) \<and>
   (\<exists>r'. summary_callback known human 0 (ev ''E'' [''m'']) (at_count 50 ''E'') = Inr r' \<and>
         count r' = 50 \<and> bw r' = [Flush]) \<and>
   (\<exists>s'. context_callback known human 0 (ev ''E'' [''m'']) (at_count 6 ''E'') = Inr s' \<and>
         count s' = 6 \<and> bw s' = [Separator, Line ''m'']) \<and>
   (\<exists>r'. summary_callback known human 0 (ev ''E'' [''m'']) (at_count 6 ''E'') = Inr r' \<and>
         count r' = 6 \<and> bw r' = []) \<and>
   (\<exists>s' ts. context_callback known human 0 (ev ''F'' [''m'']) (at_count 5 ''E'') = Inr s' \<and>
         bw s' = Flush # ts \<and> Flush \<notin> set ts) \<and>
   (\<exists>r' ts. summary_callback known human 0 (ev ''F'' [''m'']) (at_count 5 ''E'') = Inr r' \<and>
         bw r' = Flush # ts \<and> Flush \<notin> set ts) \<and>
   (\<exists>ts ts'. renderWithContext known human 0 five_sources (None :: unit option) = Inr (ts, 5, None) \<and>
         ts = ts' @ [Flush] \<and> flushes ts' = 3) \<and>
   (\<exists>us us'. renderSummary known human 0 five_sources (None :: unit option) = Inr (us, 5, None) \<and>
         us = us' @ [Flush] \<and> flushes us' = 3) \<and>
   distinct (map name (sources 120)) \<and> starts_named (sources 120) \<and> all_linked known (sources 120) \<and>
   length (sources 120) = 120 \<and> sources 120 \<noteq> [] \<and>
   (\<exists>ts us. renderWithContext known human 0 (sources 120) (None :: unit option) = Inr (ts, 120, None) \<and>
            renderSummary known human 0 (sources 120) (None :: unit option) = Inr (us, 120, None) \<and>
            flushes ts = 5 \<and> flushes us = 5 \<and>
            (\<exists>ts'. ts = Flush # BlockOpen # ts') \<and> (\<exists>us'. us = TableOpen # Flush # RowOpen # us'))"
proof -
  let ?e = "ev ''E'' [''m'']"
  let ?f = "ev ''F'' [''m'']"
  have h: "hit ?e = [Line ''m'']"
    by (simp add: hit_def ev_def hit_lines_filter TrimRight_def)
  have d: "due 5" "due 50" "\<not> due 6"
    by (simp_all add: due_def)
  have n: "lastName (at_count c ''E'') = name ?e" for c
    by (simp add: at_count_fields ev_def)
  note c3 = flush_cadence [where M = known and H = human and st = 0,
      THEN conjunct2, THEN conjunct2, THEN conjunct1, THEN mp]
  from c3 [OF n [of 5]] d
  have 1: "\<exists>s'. context_callback known human 0 ?e (at_count 5 ''E'') = Inr s' \<and>
         count s' = 5 \<and> bw s' = [Flush, Separator, Line ''m'']"
    by (auto simp add: at_count_fields h)
  from c3 [OF n [of 50]] d
  have 2: "\<exists>r'. summary_callback known human 0 ?e (at_count 50 ''E'') = Inr r' \<and>
         count r' = 50 \<and> bw r' = [Flush]"
    by (auto simp add: at_count_fields h)
  from c3 [OF n [of 6]] d
  have 3: "\<exists>s'. context_callback known human 0 ?e (at_count 6 ''E'') = Inr s' \<and>
         count s' = 6 \<and> bw s' = [Separator, Line ''m'']"
    by (auto simp add: at_count_fields h)
  from c3 [OF n [of 6]] d
  have 4: "\<exists>r'. summary_callback known human 0 ?e (at_count 6 ''E'') = Inr r' \<and>
         count r' = 6 \<and> bw r' = []"
    by (auto simp add: at_count_fields h)
  obtain s5 where s5: "context_callback known human 0 ?f (at_count 5 ''E'') = Inr s5"
    by (simp add: eval_defs at_count_def)
  from flush_cadence [THEN conjunct1, THEN mp, OF s5] d
  have 5: "\<exists>s' ts. context_callback known human 0 ?f (at_count 5 ''E'') = Inr s' \<and>
         bw s' = Flush # ts \<and> Flush \<notin> set ts"
    using s5 by (auto simp add: at_count_fields)
  obtain r5 where r5: "summary_callback known human 0 ?f (at_count 5 ''E'') = Inr r5"
    by (simp add: eval_defs at_count_def)
  from flush_cadence [THEN conjunct2, THEN conjunct1, THEN mp, OF r5] d
  have 6: "\<exists>r' ts. summary_callback known human 0 ?f (at_count 5 ''E'') = Inr r' \<and>
         bw r' = Flush # ts \<and> Flush \<notin> set ts"
    using r5 by (auto simp add: at_count_fields)
  obtain ts where ts: "renderWithContext known human 0 five_sources (None :: unit option) = Inr (ts, 5, None)"
    by (simp add: eval_defs five_sources_def)
  have ec: "entry_counts (context_callback known human 0) five_sources (init []) = [0, 1, 2, 3, 4, 5, 5]"
    by (simp add: eval_defs five_sources_def)
  have fd: "length (filter due [0, 1, 2, 3, 4, 5, 5]) = 3"
    by (simp add: due_def)
  from flush_cadence [THEN conjunct2, THEN conjunct2, THEN conjunct2, THEN conjunct1, THEN mp, OF ts]
    ts ec fd
  have 7: "\<exists>ts ts'. renderWithContext known human 0 five_sources (None :: unit option) = Inr (ts, 5, None) \<and>
         ts = ts' @ [Flush] \<and> flushes ts' = 3"
    by auto
  obtain us where us: "renderSummary known human 0 five_sources (None :: unit option) = Inr (us, 5, None)"
    by (simp add: eval_defs five_sources_def)
  have ec': "entry_counts (summary_callback known human 0) five_sources (init [TableOpen]) = [0, 1, 2, 3, 4, 5, 5]"
    by (simp add: eval_defs five_sources_def)
  from flush_cadence [THEN conjunct2, THEN conjunct2, THEN conjunct2, THEN conjunct2, THEN conjunct1,
      THEN mp, OF us] us ec' fd
  have 8: "\<exists>us us'. renderSummary known human 0 five_sources (None :: unit option) = Inr (us, 5, None) \<and>
         us = us' @ [Flush] \<and> flushes us' = 3"
    by auto
  have m: "length (sources 120) = 120" "sources 120 \<noteq> []"
    using sources_length [of 120] by auto
  have pre: "distinct (map name (sources 120)) \<and> starts_named (sources 120) \<and> all_linked known (sources 120)"
    using sources_distinct [of 120] sources_starts_named [of 120] sources_linked [of 120] by blast
  from flush_cadence [where H = human and st = 0 and err = "None :: unit option",
      THEN conjunct2, THEN conjunct2, THEN conjunct2, THEN conjunct2, THEN conjunct2,
      THEN mp, OF pre] m
  have 9: "\<exists>ts us. renderWithContext known human 0 (sources 120) (None :: unit option) = Inr (ts, 120, None) \<and>
            renderSummary known human 0 (sources 120) (None :: unit option) = Inr (us, 120, None) \<and>
            flushes ts = 5 \<and> flushes us = 5 \<and>
            (\<exists>ts'. ts = Flush # BlockOpen # ts') \<and> (\<exists>us'. us = TableOpen # Flush # RowOpen # us')"
    by auto
  from n [of 5] 1 2 3 4 5 6 7 8 9 m
    sources_distinct [of 120] sources_starts_named [of 120] sources_linked [of 120]
  show ?thesis by (intro conjI)
qed

subsection \<open>C5: the hit counts of the summary\<close>




subsection \<open>C6: one header and the separators of a run\<close>

text \<open>
  Claim C6 says that for any run of consecutive events with the same source the
  context renderer writes exactly one block header, and a separator between each
  pair of hits but never before the first. As stated it fails for a run of the
  empty source at the start of a stream: \<^verbatim>\<open>lastName\<close> starts as the empty
  string, so no header is written and a separator precedes the first hit too.
\<close>

theorem context_run_counterexample:
  "renderWithContext known human 0 [ev [] [''first''], ev [] [''second'']] (None :: unit option) =
     Inr ([Flush, Separator, Line ''first'', Flush, Separator, Line ''second'', Flush], 0, None)"
  by (simp add: eval_defs)

text \<open>
  Claim C6, amended: at any point of the stream where the previous source (the
  empty string at the start) differs from \<open>a\<close>, and \<open>a\<close> resolves to a job
  URL, a run of events of the source \<open>a\<close> writes, after the closing of the
  block before it, one block opening and one header, then the lines of the first
  hit, then for each further hit a separator and its lines (with a flush before
  the separator while the count of blocks is 5 or a multiple of 50). The number of
  headers written grows by exactly one.
\<close>

theorem context_run_one_header:
  assumes "lastName s \<noteq> a" and "JobURI (fst (M a)) = Some u"
    and "name e = a" and "\<forall>e' \<in> set es. name e' = a"
  shows "\<exists>s'. executeGrep (context_callback M H st) (e # es) s = Inr s' \<and>
           count s' = Suc (count s) \<and> lastName s' = a \<and>
           bw s' = bw s @ (if due (count s) then [Flush] else []) @
                   (if count s > 0 then [BlockClose] else []) @
                   heading M H st a u @ hit e @
                   concat (map (\<lambda>e'. (if due (Suc (count s)) then [Flush] else []) @ Separator # hit e') es) \<and>
           headers (bw s') = Suc (headers (bw s))"
proof -
  from context_callback_new [of s e M u H st] assms obtain s1 where
    step: "context_callback M H st e s = Inr s1" and
    c1: "count s1 = Suc (count s)" and l1: "lastName s1 = a" and
    b1: "bw s1 = bw s @ (if due (count s) then [Flush] else []) @
           (if count s > 0 then [BlockClose] else []) @ heading M H st a u @ hit e"
    by auto
  from assms(4) l1 have "\<forall>e' \<in> set es. name e' = lastName s1" by simp
  from context_same_run_exact [OF this, of M H st] obtain s' where
    run: "executeGrep (context_callback M H st) es s1 = Inr s'" and
    c: "count s' = count s1" and l: "lastName s' = lastName s1" and
    w: "bw s' = bw s1 @ concat (map (\<lambda>e. (if due (count s1) then [Flush] else []) @ Separator # hit e) es)"
    by blast
  have 1: "executeGrep (context_callback M H st) (e # es) s = Inr s'"
    using step run by simp
  have 2: "bw s' = bw s @ (if due (count s) then [Flush] else []) @
                   (if count s > 0 then [BlockClose] else []) @
                   heading M H st a u @ hit e @
                   concat (map (\<lambda>e'. (if due (Suc (count s)) then [Flush] else []) @ Separator # hit e') es)"
    using w b1 c1 by simp
  have 3: "headers (bw s') = Suc (headers (bw s))"
    unfolding 2 by (simp add: headers_simps headers_hit headers_heading headers_separated)
  from 1 2 3 c c1 l l1 show ?thesis by simp
qed

theorem context_run_one_header_witness:
  "lastName (init []) \<noteq> ''A'' \<and> JobURI (fst (known ''A'')) = Some ''https://ci/A'' \<and>
   name (ev ''A'' [''first'']) = ''A'' \<and>
   list_all (\<lambda>e'. name e' = ''A'') [ev ''A'' [''second''], ev ''A'' [''third'']] \<and>
   (\<exists>s'. executeGrep (context_callback known human 0)
            [ev ''A'' [''first''], ev ''A'' [''second''], ev ''A'' [''third'']] (init []) = Inr s' \<and>
         count s' = 1 \<and> lastName s' = ''A'' \<and>
         bw s' = [Flush, BlockOpen, Header ''junit'' ''build'' ''https://ci/A'' ''A'' 7 [],
                  Line ''first'', Separator, Line ''second'', Separator, Line ''third''] \<and>
         headers (bw s') = 1)"
  using context_run_one_header [of "init []" "''A''" known "''https://ci/A''" "ev ''A'' [''first'']"
      "[ev ''A'' [''second''], ev ''A'' [''third'']]" human 0]
  by (simp add: init_fields known_def ev_def due_def heading_def hit_def hit_lines_filter
      TrimRight_def context_age_def headers_simps Let_def)

subsection \<open>C7: one block for each of pairwise distinct sources\<close>

text \<open>
  Claim C7 says that for events with pairwise distinct sources and non-empty lines
  the context renderer opens one block per event and returns the number of events.
  As stated it fails for the one-event stream whose source is the empty string: no
  block is opened and 0 is returned.
\<close>

theorem context_distinct_sources_counterexample:
  "distinct (map name [ev [] [''timeout'']]) \<and>
   list_all (\<lambda>e. matches e \<noteq> []) [ev [] [''timeout'']] \<and>
   renderWithContext known human 0 [ev [] [''timeout'']] (None :: unit option) =
     Inr ([Flush, Separator, Line ''timeout'', Flush], 0, None)"
  by (simp add: eval_defs)

text \<open>
  Claim C7, amended: for events with pairwise distinct sources, the first of them
  not the empty string, that all resolve to a job URL, the context renderer opens
  exactly one block and writes one header per event, writes no separator, and
  returns the number of events. The condition on the lines is not needed.
\<close>

theorem context_distinct_sources:
  assumes "distinct (map name events)" and "starts_named events" and "all_linked M events"
  shows "\<exists>ts. renderWithContext M H st events err = Inr (ts, length events, err) \<and>
           blocks_opened ts = length events \<and> headers ts = length events \<and>
           Separator \<notin> set ts"
proof -
  from context_distinct_exec [OF assms, of H st] obtain s' where
    run: "executeGrep (context_callback M H st) events (init []) = Inr s'" and
    c: "count s' = length events" and
    o: "blocks_opened (bw s') = length events" and
    h: "headers (bw s') = length events" and
    sep: "Separator \<notin> set (bw s')"
    by blast
  let ?ts = "bw s' @ (if count s' > 0 then [BlockClose] else []) @ [Flush]"
  have "renderWithContext M H st events err = Inr (?ts, length events, err)"
    using run c by (simp add: renderWithContext_def emit_def)
  moreover have "blocks_opened ?ts = length events"
    using o by (simp add: blocks_opened_simps)
  moreover have "headers ?ts = length events"
    using h by (simp add: headers_simps)
  moreover have "Separator \<notin> set ?ts"
    using sep by simp
  ultimately show ?thesis by blast
qed

theorem context_distinct_sources_witness:
  "distinct (map name (sources 3)) \<and> starts_named (sources 3) \<and> all_linked known (sources 3) \<and>
   (\<exists>ts. renderWithContext known human 0 (sources 3) (None :: unit option) = Inr (ts, 3, None) \<and>
         blocks_opened ts = 3 \<and> headers ts = 3 \<and> Separator \<notin> set ts)"
  using context_distinct_sources [of "sources 3" known human 0 "None :: unit option"]
    sources_distinct [of 3] sources_starts_named [of 3] sources_linked [of 3]
  by (simp add: sources_length)

subsection \<open>C8: the validation of the request\<close>

text \<open>
  Claim C8: \<^verbatim>\<open>parseRequest\<close> returns an error, and no descriptor, whenever the
  search type is none of junit, build-log, all and the empty string, whenever a
  given maxAge does not parse or is negative, and whenever a given context is not
  an integer from -1 to 15. It returns a descriptor exactly when the form parses
  and none of these, nor a job filter that does not compile, stands in the way.
  An empty type then gives the search type all, and an absent context gives the
  context 2 in the text mode.
\<close>

theorem parseRequest_validation:
  "(bad_type req \<or> bad_maxAge l req \<or> bad_context l req \<longrightarrow>
      (\<exists>e. parseRequest m l req mode = Inl e)) \<and>
   ((\<exists>index. parseRequest m l req mode = Inr index) \<longleftrightarrow>
      ParseForm req = None \<and> \<not> bad_type req \<and> \<not> bad_name l req mode \<and>
      \<not> bad_maxAge l req \<and> \<not> bad_context l req) \<and>
   (\<forall>index. parseRequest m l req mode = Inr index \<longrightarrow>
      (FormValue req ''type'' = [] \<longrightarrow> SearchType index = ''all'') \<and>
      (FormValue req ''context'' = [] \<and> mode = ''text'' \<longrightarrow> Context index = 2))"
proof -
  have bad: "ParseForm req \<noteq> None \<or> bad_type req \<or> bad_name l req mode \<or> bad_maxAge l req \<or>
      bad_context l req \<Longrightarrow> \<exists>e. parseRequest m l req mode = Inl e"
    by (rule parseRequest_bad)
  have ok: "ParseForm req = None \<and> \<not> bad_type req \<and> \<not> bad_name l req mode \<and>
      \<not> bad_maxAge l req \<and> \<not> bad_context l req \<Longrightarrow>
      \<exists>index. parseRequest m l req mode = Inr index \<and>
           SearchType index = (if FormValue req ''type'' = [] then ''all'' else FormValue req ''type'') \<and>
           Context index =
             (if FormValue req ''context'' \<noteq> [] then the (Atoi l (FormValue req ''context''))
              else if mode = ''text'' then 2 else 0)"
    using parseRequest_ok [of req l mode m] by blast
  have 1: "bad_type req \<or> bad_maxAge l req \<or> bad_context l req \<longrightarrow>
      (\<exists>e. parseRequest m l req mode = Inl e)"
    using bad by blast
  have 2: "(\<exists>index. parseRequest m l req mode = Inr index) \<longleftrightarrow>
      ParseForm req = None \<and> \<not> bad_type req \<and> \<not> bad_name l req mode \<and>
      \<not> bad_maxAge l req \<and> \<not> bad_context l req"
  proof
    assume "\<exists>index. parseRequest m l req mode = Inr index"
    then have "\<not> (\<exists>e. parseRequest m l req mode = Inl e)" by auto
    with bad show "ParseForm req = None \<and> \<not> bad_type req \<and> \<not> bad_name l req mode \<and>
      \<not> bad_maxAge l req \<and> \<not> bad_context l req" by blast
  next
    assume "ParseForm req = None \<and> \<not> bad_type req \<and> \<not> bad_name l req mode \<and>
      \<not> bad_maxAge l req \<and> \<not> bad_context l req"
    from ok [OF this] show "\<exists>index. parseRequest m l req mode = Inr index" by blast
  qed
  have 3: "\<forall>index. parseRequest m l req mode = Inr index \<longrightarrow>
      (FormValue req ''type'' = [] \<longrightarrow> SearchType index = ''all'') \<and>
      (FormValue req ''context'' = [] \<and> mode = ''text'' \<longrightarrow> Context index = 2)"
  proof (intro allI impI)
    fix index
    assume r: "parseRequest m l req mode = Inr index"
    then have "\<exists>index. parseRequest m l req mode = Inr index" by blast
    with 2 have "ParseForm req = None \<and> \<not> bad_type req \<and> \<not> bad_name l req mode \<and>
      \<not> bad_maxAge l req \<and> \<not> bad_context l req" by blast
    from ok [OF this] r show "(FormValue req ''type'' = [] \<longrightarrow> SearchType index = ''all'') \<and>
      (FormValue req ''context'' = [] \<and> mode = ''text'' \<longrightarrow> Context index = 2)"
      by auto
  qed
  from 1 2 3 show ?thesis by blast
qed

theorem parseRequest_validation_witness:
  "bad_type (request [(''type'', ''bogus'')]) \<and>
   (\<exists>e. parseRequest 0 sample_lib (request [(''type'', ''bogus'')]) ''text'' = Inl e) \<and>
   bad_maxAge sample_lib (request [(''maxAge'', ''soon'')]) \<and>
   (\<exists>e. parseRequest 0 sample_lib (request [(''maxAge'', ''soon'')]) ''text'' = Inl e) \<and>
   bad_context sample_lib (request [(''context'', ''16'')]) \<and>
   (\<exists>e. parseRequest 0 sample_lib (request [(''context'', ''16'')]) ''text'' = Inl e) \<and>
   (\<exists>index. parseRequest 0 sample_lib (request [(''search'', ''timeout''), (''maxAge'', ''6h'')]) ''text'' = Inr index \<and>
            SearchType index = ''all'' \<and> Context index = 2)"
proof -
  have a: "bad_type (request [(''type'', ''bogus'')])"
    by (simp add: bad_type_def FormValue_request)
  have b: "bad_maxAge sample_lib (request [(''maxAge'', ''soon'')])"
    by (simp add: bad_maxAge_def FormValue_request sample_lib_def)
  have c: "bad_context sample_lib (request [(''context'', ''16'')])"
    by (simp add: bad_context_def FormValue_request sample_lib_def)
  let ?good = "request [(''search'', ''timeout''), (''maxAge'', ''6h'')]"
  have d0: "ParseForm ?good = None"
    by (simp add: request_def)
  have d1: "\<not> bad_type ?good \<and> \<not> bad_name sample_lib ?good ''text'' \<and>
      \<not> bad_maxAge sample_lib ?good \<and> \<not> bad_context sample_lib ?good"
    by (simp add: bad_type_def bad_name_def bad_maxAge_def bad_context_def FormValue_request
        sample_lib_def Hour_def)
  note d = d0 d1
  have e: "FormValue ?good ''type'' = []" "FormValue ?good ''context'' = []"
    by (simp_all add: FormValue_request)
  from a parseRequest_validation [of "request [(''type'', ''bogus'')]" sample_lib 0 "''text''"]
  have 1: "\<exists>e. parseRequest 0 sample_lib (request [(''type'', ''bogus'')]) ''text'' = Inl e" by blast
  from b parseRequest_validation [of "request [(''maxAge'', ''soon'')]" sample_lib 0 "''text''"]
  have 2: "\<exists>e. parseRequest 0 sample_lib (request [(''maxAge'', ''soon'')]) ''text'' = Inl e" by blast
  from c parseRequest_validation [of "request [(''context'', ''16'')]" sample_lib 0 "''text''"]
  have 3: "\<exists>e. parseRequest 0 sample_lib (request [(''context'', ''16'')]) ''text'' = Inl e" by blast
  from d e parseRequest_validation [of ?good sample_lib 0 "''text''"]
  have 4: "\<exists>index. parseRequest 0 sample_lib ?good ''text'' = Inr index \<and>
            SearchType index = ''all'' \<and> Context index = 2" by blast
  from a b c 1 2 3 4 show ?thesis by blast
qed

subsection \<open>C9: the context decides the renderer\<close>

text \<open>
  Claim C9: for every descriptor that \<^verbatim>\<open>parseRequest\<close> returns for the page,
  the context is between -1 and 15, and \<^verbatim>\<open>handleIndex\<close> answers a non-empty
  search with the output of exactly one renderer: the summary renderer when the
  context is -1, the context renderer otherwise, that is when it is 0 or more.
\<close>

theorem renderer_choice:
  assumes "parseRequest m l req ''text'' = Inr index"
    and "index' = (if length (Search index) = 0 then index\<lparr>Search := [[]]\<rparr> else index)"
  shows "- 1 \<le> Context index \<and> Context index \<le> 15 \<and>
         handleIndex m l g M H st req =
           (if length (hd (Search index')) = 0 then EmptyPage
            else if Context index = - 1
            then Results Summary (renderSummary M H st (fst (g index')) (snd (g index')))
            else Results WithContext (renderWithContext M H st (fst (g index')) (snd (g index'))))"
proof -
  from parseRequest_Context_range [OF assms(1)]
  have r: "- 1 \<le> Context index \<and> Context index \<le> 15" .
  then have s: "(0 \<le> Context index) = (Context index \<noteq> - 1)" by auto
  have c: "Context index' = Context index"
    by (simp add: assms(2))
  have "handleIndex m l g M H st req =
           (if length (hd (Search index')) = 0 then EmptyPage
            else if Context index' \<ge> 0
            then Results WithContext (renderWithContext M H st (fst (g index')) (snd (g index')))
            else Results Summary (renderSummary M H st (fst (g index')) (snd (g index'))))"
    unfolding handleIndex_def assms(1) assms(2) by (simp only: sum.case Let_def)
  then show ?thesis using r s c by simp
qed

theorem renderer_choice_witness:
  "parseRequest 0 sample_lib (request [(''search'', ''timeout''), (''context'', ''-1'')]) ''text'' =
     Inr \<lparr>Search = [''timeout''], SearchType = ''all'', Job = None, MaxAge = 7 * 24 * Hour, Context = - 1\<rparr> \<and>
   handleIndex 0 sample_lib (\<lambda>index. ([ev ''A'' [''timeout'']], None :: unit option)) known human 0
       (request [(''search'', ''timeout''), (''context'', ''-1'')]) =
     Results Summary (renderSummary known human 0 [ev ''A'' [''timeout'']] None) \<and>
   parseRequest 0 sample_lib (request [(''search'', ''timeout''), (''context'', ''7'')]) ''text'' =
     Inr \<lparr>Search = [''timeout''], SearchType = ''all'', Job = None, MaxAge = 7 * 24 * Hour, Context = 7\<rparr> \<and>
   handleIndex 0 sample_lib (\<lambda>index. ([ev ''A'' [''timeout'']], None :: unit option)) known human 0
       (request [(''search'', ''timeout''), (''context'', ''7'')]) =
     Results WithContext (renderWithContext known human 0 [ev ''A'' [''timeout'']] None)"
proof -
  let ?g = "\<lambda>index :: Index. ([ev ''A'' [''timeout'']], None :: unit option)"
  let ?a = "\<lparr>Search = [''timeout''], SearchType = ''all'', Job = None, MaxAge = 7 * 24 * Hour, Context = - 1\<rparr>"
  let ?b = "\<lparr>Search = [''timeout''], SearchType = ''all'', Job = None, MaxAge = 7 * 24 * Hour, Context = 7\<rparr>"
  have a: "parseRequest 0 sample_lib (request [(''search'', ''timeout''), (''context'', ''-1'')]) ''text'' = Inr ?a"
    by (simp add: parseRequest_def parse_type_def parse_name_def parse_maxAge_def parse_context_def
        FormValue_request request_fields sample_lib_def zero_Index_def Let_def Hour_def)
  have b: "parseRequest 0 sample_lib (request [(''search'', ''timeout''), (''context'', ''7'')]) ''text'' = Inr ?b"
    by (simp add: parseRequest_def parse_type_def parse_name_def parse_maxAge_def parse_context_def
        FormValue_request request_fields sample_lib_def zero_Index_def Let_def Hour_def)
  have "?a = (if length (Search ?a) = 0 then ?a\<lparr>Search := [[]]\<rparr> else ?a)" by simp
  from renderer_choice [OF a this, of ?g known human 0]
  have 1: "handleIndex 0 sample_lib ?g known human 0
       (request [(''search'', ''timeout''), (''context'', ''-1'')]) =
     Results Summary (renderSummary known human 0 [ev ''A'' [''timeout'']] None)"
    by simp
  have "?b = (if length (Search ?b) = 0 then ?b\<lparr>Search := [[]]\<rparr> else ?b)" by simp
  from renderer_choice [OF b this, of ?g known human 0]
  have 2: "handleIndex 0 sample_lib ?g known human 0
       (request [(''search'', ''timeout''), (''context'', ''7'')]) =
     Results WithContext (renderWithContext known human 0 [ev ''A'' [''timeout'']] None)"
    by simp
  from a b 1 2 show ?thesis by blast
qed

subsection \<open>C10: a stream that starts with the empty source\<close>

text \<open>
  Claim C10: \<^verbatim>\<open>lastName\<close> starts as the empty string, so events with the empty
  string as their source at the start of a stream are taken for continuations of a
  block that was never opened. The context renderer writes for each of them a
  flush, a separator and its lines, with no block opening, header or closing, and
  the summary renderer only flushes and counts; both leave \<^verbatim>\<open>count\<close> at 0 and go
  on with the rest of the stream from that state. A stream of such events alone
  returns the count 0.
\<close>

theorem unnamed_first_source:
  assumes "\<forall>e \<in> set events. name e = []"
  shows "executeGrep (context_callback M H st) (events @ rest) (init []) =
           executeGrep (context_callback M H st) rest
             ((init [])\<lparr>lineCount := sum_list (map (\<lambda>e. length (hit_lines (matches e))) events),
                        bw := concat (map (\<lambda>e. Flush # Separator # hit e) events)\<rparr>) \<and>
         renderWithContext M H st events err =
           Inr (concat (map (\<lambda>e. Flush # Separator # hit e) events) @ [Flush], 0, err) \<and>
         executeGrep (summary_callback M H st) (events @ rest) (init [TableOpen]) =
           executeGrep (summary_callback M H st) rest
             ((init [TableOpen])\<lparr>currentLines := length events,
                                 bw := TableOpen # replicate (length events) Flush\<rparr>) \<and>
         renderSummary M H st events err =
           Inr (TableOpen # replicate (length events) Flush @ [Flush], 0, err)"
proof -
  have i: "count (init w) = 0" "lastName (init w) = []" "lineCount (init w) = 0"
    "currentLines (init w) = 0" "bw (init w) = w" for w
    by (simp_all add: init_def)
  have c: "executeGrep (context_callback M H st) events (init []) =
      Inr ((init [])\<lparr>lineCount := lineCount (init []) + sum_list (map (\<lambda>e. length (hit_lines (matches e))) events),
                 bw := bw (init []) @ concat (map (\<lambda>e. Flush # Separator # hit e) events)\<rparr>)"
    using assms i(1) i(2) by (rule context_unnamed_run)
  have s: "executeGrep (summary_callback M H st) events (init [TableOpen]) =
      Inr ((init [TableOpen])\<lparr>currentLines := currentLines (init [TableOpen]) + length events,
                 bw := bw (init [TableOpen]) @ replicate (length events) Flush\<rparr>)"
    using assms i(1) i(2) by (rule summary_unnamed_run)
  have "executeGrep (context_callback M H st) (events @ rest) (init []) =
           executeGrep (context_callback M H st) rest
             ((init [])\<lparr>lineCount := sum_list (map (\<lambda>e. length (hit_lines (matches e))) events),
                        bw := concat (map (\<lambda>e. Flush # Separator # hit e) events)\<rparr>)"
    by (simp add: executeGrep_append c i)
  moreover have "renderWithContext M H st events err =
           Inr (concat (map (\<lambda>e. Flush # Separator # hit e) events) @ [Flush], 0, err)"
    by (simp add: renderWithContext_def c i emit_def)
  moreover have "executeGrep (summary_callback M H st) (events @ rest) (init [TableOpen]) =
           executeGrep (summary_callback M H st) rest
             ((init [TableOpen])\<lparr>currentLines := length events,
                                 bw := TableOpen # replicate (length events) Flush\<rparr>)"
    by (simp add: executeGrep_append s i)
  moreover have "renderSummary M H st events err =
           Inr (TableOpen # replicate (length events) Flush @ [Flush], 0, err)"
    by (simp add: renderSummary_def s i emit_def)
  ultimately show ?thesis by blast
qed

theorem unnamed_first_source_witness:
  "list_all (\<lambda>e. name e = []) [ev [] [''timeout''], ev [] [''again'']] \<and>
   renderWithContext known human 0 [ev [] [''timeout''], ev [] [''again'']] (None :: unit option) =
     Inr ([Flush, Separator, Line ''timeout'', Flush, Separator, Line ''again'', Flush], 0, None) \<and>
   renderSummary known human 0 [ev [] [''timeout''], ev [] [''again'']] (None :: unit option) =
     Inr ([TableOpen, Flush, Flush, Flush], 0, None)"
  using unnamed_first_source [of "[ev [] [''timeout''], ev [] [''again'']]" known human 0 "[]" "None :: unit option"]
  by (simp add: ev_def hit_def hit_lines_filter TrimRight_def)

end
